theory Spec2Isabelle
  imports Main "HOL-Library.Word" "HOL-Library.Multiset"
begin

unbundle bit_operations_syntax

section \<open>Machine types and outcomes of a call\<close>

text \<open>\<^verbatim>\<open>size_t\<close> is an unsigned 64-bit integer: \<open>+\<close>, \<open>-\<close> and \<open>*\<close> wrap around.\<close>

type_synonym size_t = "64 word"

text \<open>
  A call either returns (with the state it leaves and its result), throws
  \<^verbatim>\<open>std::runtime_error\<close> (with the state it leaves and the message), or runs into
  undefined behaviour: a null pointer is dereferenced or an array is written out of range.
\<close>

datatype ub = NullSceneDereference | NullCameraDereference | NullBufferWrite | OutOfBoundsWrite

datatype ('s, 'a) result = Returns 's 'a | Throws 's string | Undefined ub

section \<open>glm\<close>

text \<open>
  The glm library is not part of the repository. \<open>'f\<close> is \<^verbatim>\<open>float\<close> (only its
  \<open>0\<close>, \<open>1\<close>, \<open>+\<close> and \<open>*\<close> are used, and no law is assumed of them), \<open>'m\<close> is
  \<^verbatim>\<open>glm::mat4\<close>, and the library functions the code calls are parameters:
  \<open>translate v\<close> is \<^verbatim>\<open>glm::translate(glm::mat4(1.0f), v)\<close>, \<open>rotate a v\<close> is
  \<^verbatim>\<open>glm::rotate(glm::mat4(1.0f), a, v)\<close>, \<open>scale v\<close> is
  \<^verbatim>\<open>glm::scale(glm::mat4(1.0f), v)\<close> and \<open>mat_mul\<close> is the matrix product.
\<close>

type_synonym 'f vec3 = "'f \<times> 'f \<times> 'f"

record ('f, 'm) glm =
  radians :: "'f \<Rightarrow> 'f"
  translate :: "'f vec3 \<Rightarrow> 'm"
  rotate :: "'f \<Rightarrow> 'f vec3 \<Rightarrow> 'm"
  scale :: "'f vec3 \<Rightarrow> 'm"
  mat_mul :: "'m \<Rightarrow> 'm \<Rightarrow> 'm"

definition vec3_add :: "'f::plus vec3 \<Rightarrow> 'f vec3 \<Rightarrow> 'f vec3" where
  "vec3_add a b = (case a of (ax, ay, az) \<Rightarrow> case b of (bx, by, bz) \<Rightarrow> (ax + bx, ay + by, az + bz))"

definition vec3_mul :: "'f::times vec3 \<Rightarrow> 'f vec3 \<Rightarrow> 'f vec3" where
  "vec3_mul a b = (case a of (ax, ay, az) \<Rightarrow> case b of (bx, by, bz) \<Rightarrow> (ax * bx, ay * by, az * bz))"

definition vec3_x :: "'f vec3 \<Rightarrow> 'f" where "vec3_x v = fst v"
definition vec3_y :: "'f vec3 \<Rightarrow> 'f" where "vec3_y v = fst (snd v)"
definition vec3_z :: "'f vec3 \<Rightarrow> 'f" where "vec3_z v = snd (snd v)"

section \<open>Pointers to the camera, the scene and the owner\<close>

text \<open>
  A pointer is modelled by what it points to, read-only during a frame.
  \<^verbatim>\<open>std::shared_ptr<BaseCamera>\<close>: \<open>None\<close> is the empty pointer.
  \<^verbatim>\<open>Scene*\<close>: \<open>None\<close> is \<^verbatim>\<open>nullptr\<close>, \<open>Some c\<close> a scene whose \<^verbatim>\<open>m_ActiveCamera\<close> is \<open>c\<close>.
  \<^verbatim>\<open>SceneObject*\<close> (the owner of a transform): \<open>None\<close> is \<^verbatim>\<open>nullptr\<close>, \<open>Some s\<close> an
  object whose \<^verbatim>\<open>m_OwningScene\<close> is \<open>s\<close>.
\<close>

record 'm BaseCamera =
  m_View :: 'm
  m_Projection :: 'm

type_synonym 'm camera_ptr = "'m BaseCamera option"
type_synonym 'm scene_ptr = "'m camera_ptr option"
type_synonym 'm owner_ptr = "'m scene_ptr option"

section \<open>Transform (Transform.cpp)\<close>

text \<open>
  \<open>recalculations\<close> is a ghost field: it counts the runs of \<^verbatim>\<open>RecalculateModelMatrix\<close>
  and is read by no function. \<^verbatim>\<open>m_Owner\<close> is set by the constructor and never changes;
  it is an argument of \<^verbatim>\<open>ComputeModelViewProjection\<close> below.
\<close>

record ('f, 'm) Transform =
  m_Position :: "'f vec3"
  m_Rotation :: "'f vec3"
  m_Scale :: "'f vec3"
  m_Dirty :: bool
  m_CachedModelMatrix :: 'm
  recalculations :: nat

text \<open>The constructor leaves the cached matrix uninitialised: \<open>uninit\<close> is its content.\<close>

definition Transform_ctor :: "'m \<Rightarrow> ('f::{zero,one}, 'm) Transform" where
  "Transform_ctor uninit =
     \<lparr>m_Position = (0, 0, 0), m_Rotation = (0, 0, 0), m_Scale = (1, 1, 1),
      m_Dirty = True, m_CachedModelMatrix = uninit, recalculations = 0\<rparr>"

definition SetPosition_xyz :: "'f \<Rightarrow> 'f \<Rightarrow> 'f \<Rightarrow> ('f, 'm) Transform \<Rightarrow> ('f, 'm) Transform" where
  "SetPosition_xyz X Y Z t = t\<lparr>m_Position := (X, Y, Z), m_Dirty := True\<rparr>"

definition SetPosition :: "'f vec3 \<Rightarrow> ('f, 'm) Transform \<Rightarrow> ('f, 'm) Transform" where
  "SetPosition NewPosition t = t\<lparr>m_Position := NewPosition, m_Dirty := True\<rparr>"

definition MoveBy_xyz :: "'f::plus \<Rightarrow> 'f \<Rightarrow> 'f \<Rightarrow> ('f, 'm) Transform \<Rightarrow> ('f, 'm) Transform" where
  "MoveBy_xyz DeltaX DeltaY DeltaZ t =
     t\<lparr>m_Position := vec3_add (m_Position t) (DeltaX, DeltaY, DeltaZ), m_Dirty := True\<rparr>"

definition MoveBy :: "'f::plus vec3 \<Rightarrow> ('f, 'm) Transform \<Rightarrow> ('f, 'm) Transform" where
  "MoveBy Offset t = t\<lparr>m_Position := vec3_add (m_Position t) Offset, m_Dirty := True\<rparr>"

definition SetRotation_xyz :: "'f \<Rightarrow> 'f \<Rightarrow> 'f \<Rightarrow> ('f, 'm) Transform \<Rightarrow> ('f, 'm) Transform" where
  "SetRotation_xyz Pitch Yaw Roll t = t\<lparr>m_Rotation := (Pitch, Yaw, Roll), m_Dirty := True\<rparr>"

definition SetRotation :: "'f vec3 \<Rightarrow> ('f, 'm) Transform \<Rightarrow> ('f, 'm) Transform" where
  "SetRotation NewRotation t = t\<lparr>m_Rotation := NewRotation, m_Dirty := True\<rparr>"

definition RotateBy_xyz :: "'f::plus \<Rightarrow> 'f \<Rightarrow> 'f \<Rightarrow> ('f, 'm) Transform \<Rightarrow> ('f, 'm) Transform" where
  "RotateBy_xyz DeltaPitch DeltaYaw DeltaRoll t =
     t\<lparr>m_Rotation := vec3_add (m_Rotation t) (DeltaPitch, DeltaYaw, DeltaRoll), m_Dirty := True\<rparr>"

definition RotateBy :: "'f::plus vec3 \<Rightarrow> ('f, 'm) Transform \<Rightarrow> ('f, 'm) Transform" where
  "RotateBy RotationOffset t =
     t\<lparr>m_Rotation := vec3_add (m_Rotation t) RotationOffset, m_Dirty := True\<rparr>"

definition SetScale_xyz :: "'f \<Rightarrow> 'f \<Rightarrow> 'f \<Rightarrow> ('f, 'm) Transform \<Rightarrow> ('f, 'm) Transform" where
  "SetScale_xyz X Y Z t = t\<lparr>m_Scale := (X, Y, Z), m_Dirty := True\<rparr>"

definition SetScale :: "'f vec3 \<Rightarrow> ('f, 'm) Transform \<Rightarrow> ('f, 'm) Transform" where
  "SetScale NewScale t = t\<lparr>m_Scale := NewScale, m_Dirty := True\<rparr>"

definition SetUniformScale :: "'f \<Rightarrow> ('f, 'm) Transform \<Rightarrow> ('f, 'm) Transform" where
  "SetUniformScale ScaleFactor t =
     t\<lparr>m_Scale := (ScaleFactor, ScaleFactor, ScaleFactor), m_Dirty := True\<rparr>"

definition ScaleBy_xyz :: "'f::times \<Rightarrow> 'f \<Rightarrow> 'f \<Rightarrow> ('f, 'm) Transform \<Rightarrow> ('f, 'm) Transform" where
  "ScaleBy_xyz FactorX FactorY FactorZ t =
     t\<lparr>m_Scale := vec3_mul (m_Scale t) (FactorX, FactorY, FactorZ), m_Dirty := True\<rparr>"

definition ScaleBy :: "'f::times vec3 \<Rightarrow> ('f, 'm) Transform \<Rightarrow> ('f, 'm) Transform" where
  "ScaleBy ScaleOffset t = t\<lparr>m_Scale := vec3_mul (m_Scale t) ScaleOffset, m_Dirty := True\<rparr>"

definition ScaleByUniform :: "'f::times \<Rightarrow> ('f, 'm) Transform \<Rightarrow> ('f, 'm) Transform" where
  "ScaleByUniform Factor t =
     t\<lparr>m_Scale := vec3_mul (m_Scale t) (Factor, Factor, Factor), m_Dirty := True\<rparr>"

text \<open>A call of one of the mutators, and its effect.\<close>

datatype 'f mutator =
    Call_SetPosition_xyz 'f 'f 'f | Call_SetPosition "'f vec3"
  | Call_MoveBy_xyz 'f 'f 'f | Call_MoveBy "'f vec3"
  | Call_SetRotation_xyz 'f 'f 'f | Call_SetRotation "'f vec3"
  | Call_RotateBy_xyz 'f 'f 'f | Call_RotateBy "'f vec3"
  | Call_SetScale_xyz 'f 'f 'f | Call_SetScale "'f vec3" | Call_SetUniformScale 'f
  | Call_ScaleBy_xyz 'f 'f 'f | Call_ScaleBy "'f vec3" | Call_ScaleByUniform 'f

fun mutate :: "('f::{plus,times}, 'm) Transform \<Rightarrow> 'f mutator \<Rightarrow> ('f, 'm) Transform" where
  "mutate t (Call_SetPosition_xyz X Y Z) = SetPosition_xyz X Y Z t"
| "mutate t (Call_SetPosition v) = SetPosition v t"
| "mutate t (Call_MoveBy_xyz X Y Z) = MoveBy_xyz X Y Z t"
| "mutate t (Call_MoveBy v) = MoveBy v t"
| "mutate t (Call_SetRotation_xyz X Y Z) = SetRotation_xyz X Y Z t"
| "mutate t (Call_SetRotation v) = SetRotation v t"
| "mutate t (Call_RotateBy_xyz X Y Z) = RotateBy_xyz X Y Z t"
| "mutate t (Call_RotateBy v) = RotateBy v t"
| "mutate t (Call_SetScale_xyz X Y Z) = SetScale_xyz X Y Z t"
| "mutate t (Call_SetScale v) = SetScale v t"
| "mutate t (Call_SetUniformScale x) = SetUniformScale x t"
| "mutate t (Call_ScaleBy_xyz X Y Z) = ScaleBy_xyz X Y Z t"
| "mutate t (Call_ScaleBy v) = ScaleBy v t"
| "mutate t (Call_ScaleByUniform x) = ScaleByUniform x t"

definition RecalculateModelMatrix :: "('f::{zero,one}, 'm) glm \<Rightarrow> ('f, 'm) Transform \<Rightarrow> ('f, 'm) Transform" where
  "RecalculateModelMatrix g t =
     t\<lparr>m_CachedModelMatrix :=
         mat_mul g (mat_mul g (mat_mul g (mat_mul g
           (translate g (m_Position t))
           (rotate g (radians g (vec3_x (m_Rotation t))) (1, 0, 0)))
           (rotate g (radians g (vec3_y (m_Rotation t))) (0, 1, 0)))
           (rotate g (radians g (vec3_z (m_Rotation t))) (0, 0, 1)))
           (scale g (m_Scale t)),
       m_Dirty := False,
       recalculations := Suc (recalculations t)\<rparr>"

text \<open>
  \<^verbatim>\<open>ApplyCachedModelMatrix\<close> dereferences the camera; the out-parameters are returned as
  the pair (model-view-projection matrix, model matrix).
\<close>

definition ApplyCachedModelMatrix ::
  "('f, 'm) glm \<Rightarrow> 'm camera_ptr \<Rightarrow> ('f, 'm) Transform \<Rightarrow> (('f, 'm) Transform, 'm \<times> 'm) result" where
  "ApplyCachedModelMatrix g Camera t =
     (case Camera of
        None \<Rightarrow> Undefined NullCameraDereference
      | Some c \<Rightarrow>
          Returns t (mat_mul g (mat_mul g (m_Projection c) (m_View c)) (m_CachedModelMatrix t),
                     m_CachedModelMatrix t))"

definition ComputeModelViewProjection ::
  "('f::{zero,one}, 'm) glm \<Rightarrow> 'm owner_ptr \<Rightarrow> ('f, 'm) Transform \<Rightarrow> (('f, 'm) Transform, 'm \<times> 'm) result" where
  "ComputeModelViewProjection g m_Owner t =
     (case m_Owner of
        None \<Rightarrow> Throws t ''Invalid owner. For camera usage, call the appropriate function to retrieve the MVP.''
      | Some GetScene \<Rightarrow>
          (case GetScene of
             None \<Rightarrow> Undefined NullSceneDereference
           | Some ActiveCamera \<Rightarrow>
               ApplyCachedModelMatrix g ActiveCamera
                 (if m_Dirty t then RecalculateModelMatrix g t else t)))"

section \<open>MatrixBuffer (MatrixBuffer.cpp)\<close>

text \<open>
  \<open>m_Buffer\<close> is a \<^verbatim>\<open>unique_ptr<glm::mat4[]>\<close>: \<open>None\<close> is the null pointer,
  \<open>Some xs\<close> an allocated array with the elements \<open>xs\<close>.
\<close>

record 'm MatrixBuffer =
  m_ObjectCount :: size_t
  m_Buffer :: "'m list option"

definition MatrixBuffer_default :: "'m MatrixBuffer" where
  "MatrixBuffer_default = \<lparr>m_ObjectCount = 0, m_Buffer = None\<rparr>"

text \<open>
  \<^verbatim>\<open>std::make_unique<glm::mat4[]>(n)\<close> value-initialises \<open>n\<close> matrices; \<open>z\<close> is the
  value-initialised matrix. The allocation is taken to succeed.
\<close>

definition make_unique :: "'m \<Rightarrow> size_t \<Rightarrow> 'm list option" where
  "make_unique z n = Some (replicate (unat n) z)"

definition Resize :: "'m \<Rightarrow> size_t \<Rightarrow> 'm MatrixBuffer \<Rightarrow> 'm MatrixBuffer" where
  "Resize z NewObjectCount b =
     (if NewObjectCount \<le> m_ObjectCount b then b
      else (let c = NewObjectCount * 2
            in b\<lparr>m_ObjectCount := c, m_Buffer := make_unique z (c * 2)\<rparr>))"

definition GetObjectCount :: "'m MatrixBuffer \<Rightarrow> size_t" where
  "GetObjectCount b = m_ObjectCount b"

text \<open>\<^verbatim>\<open>sizeof(glm::mat4)\<close> is 64 bytes.\<close>

definition GetBufferSize :: "'m MatrixBuffer \<Rightarrow> size_t" where
  "GetBufferSize b = m_ObjectCount b * 2 * 64"

section \<open>SceneObject (SceneObject.h, SceneObject.cpp)\<close>

text \<open>
  The fields the renderer reads through the object's interface. \<open>IsSkybox\<close> and
  \<open>GetHash\<close> are the results of the virtual methods of these names. The transform of a
  scene object is constructed with \<^verbatim>\<open>m_Transform(this)\<close>: its owner is the object itself.
\<close>

record ('f, 'm) SceneObject =
  m_OwningScene :: "'m scene_ptr"
  m_Transform :: "('f, 'm) Transform"
  m_New :: bool
  IsSkybox :: bool
  GetHash :: size_t

definition SceneObject_ctor :: "'m \<Rightarrow> bool \<Rightarrow> size_t \<Rightarrow> ('f::{zero,one}, 'm) SceneObject" where
  "SceneObject_ctor uninit is_skybox hash =
     \<lparr>m_OwningScene = None, m_Transform = Transform_ctor uninit, m_New = True,
      IsSkybox = is_skybox, GetHash = hash\<rparr>"

definition SetScene :: "'m scene_ptr \<Rightarrow> ('f, 'm) SceneObject \<Rightarrow> ('f, 'm) SceneObject" where
  "SetScene Scene obj = obj\<lparr>m_OwningScene := Scene\<rparr>"

section \<open>Renderer (Renderer.cpp)\<close>

text \<open>
  A \<^verbatim>\<open>SceneObject*\<close> of the renderer is the position of the object in the scene's
  \<^verbatim>\<open>m_Objects\<close> (a vector of \<^verbatim>\<open>unique_ptr\<close>, so two positions never alias).
  The calls the renderer makes on OpenGL and on the objects are recorded, oldest first.
  \<open>PerformFirstPass p\<close> and \<open>PerformSecondPass p\<close> stand for the loops that run
  \<^verbatim>\<open>FirstPass\<close> and \<^verbatim>\<open>SecondPass\<close> on every mesh of the object, \<open>StoreMatrices p i\<close> for
  the two stores at \<open>i\<close> and \<open>i + 1\<close> of the matrix buffer, and \<open>ObjectRender p n\<close> for the
  virtual call \<^verbatim>\<open>Object->Render(n)\<close>, which draws every mesh of the object with
  \<^verbatim>\<open>glDrawElementsInstanced\<close> and the instance count \<open>n\<close>. The calls on OpenGL and
  the passes and draws of the objects are taken to return.
\<close>

datatype call =
    ClearFrameBuffer
  | BindMVPBuffer
  | glBufferData size_t
  | PerformFirstPass nat
  | PerformSecondPass nat
  | SetNew nat bool
  | StoreMatrices nat size_t
  | UploadMVPDataToGPU
  | ObjectRender nat size_t

record ('f, 'm) Renderer =
  Objects :: "('f, 'm) SceneObject list"
  m_MVPMatrixBuffer :: "'m MatrixBuffer"
  calls :: "call list"

definition Renderer_ctor :: "('f, 'm) SceneObject list \<Rightarrow> ('f, 'm) Renderer" where
  "Renderer_ctor objs = \<lparr>Objects = objs, m_MVPMatrixBuffer = MatrixBuffer_default, calls = []\<rparr>"

definition record_call :: "call \<Rightarrow> ('f, 'm) Renderer \<Rightarrow> ('f, 'm) Renderer" where
  "record_call c s = s\<lparr>calls := calls s @ [c]\<rparr>"

definition Object_SetNew :: "nat \<Rightarrow> bool \<Rightarrow> ('f, 'm) Renderer \<Rightarrow> ('f, 'm) Renderer" where
  "Object_SetNew p IsNew s =
     record_call (SetNew p IsNew) (s\<lparr>Objects := (Objects s)[p := (Objects s ! p)\<lparr>m_New := IsNew\<rparr>]\<rparr>)"

text \<open>
  \<^verbatim>\<open>std::map<size_t, std::vector<SceneObject*>>\<close>: the entries in increasing key order.
  \<open>map_push_back k p\<close> is \<^verbatim>\<open>m[k].push_back(p)\<close>: \<^verbatim>\<open>operator[]\<close> inserts an empty vector
  under a key that is not there yet.
\<close>

type_synonym batches = "(size_t \<times> nat list) list"

fun map_push_back :: "size_t \<Rightarrow> nat \<Rightarrow> batches \<Rightarrow> batches" where
  "map_push_back k p [] = [(k, [p])]"
| "map_push_back k p ((k', ps) # m) =
     (if k = k' then (k', ps @ [p]) # m
      else if k < k' then (k, [p]) # (k', ps) # m
      else (k', ps) # map_push_back k p m)"

text \<open>The loop of \<^verbatim>\<open>BatchSceneObjects\<close> from position \<open>i\<close> on.\<close>

fun BatchSceneObjects_from ::
  "nat \<Rightarrow> ('f, 'm) SceneObject list \<Rightarrow> batches \<Rightarrow> nat option \<Rightarrow> batches \<times> nat option" where
  "BatchSceneObjects_from i [] ObjectBatches Skybox = (ObjectBatches, Skybox)"
| "BatchSceneObjects_from i (Object # rest) ObjectBatches Skybox =
     (if IsSkybox Object then BatchSceneObjects_from (Suc i) rest ObjectBatches (Some i)
      else BatchSceneObjects_from (Suc i) rest (map_push_back (GetHash Object) i ObjectBatches) Skybox)"

definition BatchSceneObjects :: "('f, 'm) SceneObject list \<Rightarrow> batches \<times> nat option" where
  "BatchSceneObjects objs = BatchSceneObjects_from 0 objs [] None"

fun RenderBatch :: "size_t \<Rightarrow> nat list \<Rightarrow> ('f, 'm) Renderer \<Rightarrow> ('f, 'm) Renderer" where
  "RenderBatch n [] s = s"
| "RenderBatch n (Object # rest) s = RenderBatch n rest (record_call (ObjectRender Object n) s)"

fun RenderBatches :: "batches \<Rightarrow> ('f, 'm) Renderer \<Rightarrow> ('f, 'm) Renderer" where
  "RenderBatches [] s = s"
| "RenderBatches ((Hash, ObjectBatch) # rest) s =
     RenderBatches rest (RenderBatch (of_nat (length ObjectBatch)) ObjectBatch s)"

definition RenderSkybox :: "nat option \<Rightarrow> ('f, 'm) Renderer \<Rightarrow> ('f, 'm) Renderer" where
  "RenderSkybox Skybox s =
     (case Skybox of
        None \<Rightarrow> s
      | Some p \<Rightarrow>
          record_call (ObjectRender p 1)
            (if m_New (Objects s ! p)
             then Object_SetNew p False (record_call (PerformFirstPass p) s)
             else s))"

definition EnsureBufferCapacity :: "'m \<Rightarrow> size_t \<Rightarrow> ('f, 'm) Renderer \<Rightarrow> ('f, 'm) Renderer" where
  "EnsureBufferCapacity z TotalObjectCount s =
     (if m_Buffer (m_MVPMatrixBuffer s) = None
         \<or> GetObjectCount (m_MVPMatrixBuffer s) < TotalObjectCount
      then (let s1 = s\<lparr>m_MVPMatrixBuffer := Resize z TotalObjectCount (m_MVPMatrixBuffer s)\<rparr>
            in record_call (glBufferData (GetBufferSize (m_MVPMatrixBuffer s1)))
                 (record_call BindMVPBuffer s1))
      else s)"

definition ProcessObjectForMVP ::
  "('f::{zero,one}, 'm) glm \<Rightarrow> nat \<Rightarrow> ('f, 'm) Renderer \<Rightarrow> size_t \<Rightarrow> (('f, 'm) Renderer, size_t) result" where
  "ProcessObjectForMVP g p s Index =
     (let s1 = (if m_New (Objects s ! p)
                then Object_SetNew p False
                       (record_call (PerformSecondPass p)
                         (record_call BindMVPBuffer
                           (record_call (PerformFirstPass p) s)))
                else s);
          obj = Objects s1 ! p
      in case ComputeModelViewProjection g (Some (m_OwningScene obj)) (m_Transform obj) of
           Throws t e \<Rightarrow> Throws (s1\<lparr>Objects := (Objects s1)[p := obj\<lparr>m_Transform := t\<rparr>]\<rparr>) e
         | Undefined u \<Rightarrow> Undefined u
         | Returns t out \<Rightarrow>
             (case m_Buffer (m_MVPMatrixBuffer s1) of
                None \<Rightarrow> Undefined NullBufferWrite
              | Some buf \<Rightarrow>
                  if unat Index < length buf \<and> unat (Index + 1) < length buf
                  then Returns
                         (record_call (StoreMatrices p Index)
                           (s1\<lparr>Objects := (Objects s1)[p := obj\<lparr>m_Transform := t\<rparr>],
                               m_MVPMatrixBuffer := (m_MVPMatrixBuffer s1)
                                 \<lparr>m_Buffer := Some (buf[unat Index := fst out, unat (Index + 1) := snd out])\<rparr>\<rparr>))
                         (Index + 2)
                  else Undefined OutOfBoundsWrite))"

fun ProcessBatch ::
  "('f::{zero,one}, 'm) glm \<Rightarrow> nat list \<Rightarrow> ('f, 'm) Renderer \<Rightarrow> size_t \<Rightarrow> (('f, 'm) Renderer, size_t) result" where
  "ProcessBatch g [] s Index = Returns s Index"
| "ProcessBatch g (Object # rest) s Index =
     (case ProcessObjectForMVP g Object s Index of
        Returns s' Index' \<Rightarrow> ProcessBatch g rest s' Index'
      | Throws s' e \<Rightarrow> Throws s' e
      | Undefined u \<Rightarrow> Undefined u)"

fun ProcessBatches ::
  "('f::{zero,one}, 'm) glm \<Rightarrow> batches \<Rightarrow> ('f, 'm) Renderer \<Rightarrow> size_t \<Rightarrow> (('f, 'm) Renderer, size_t) result" where
  "ProcessBatches g [] s Index = Returns s Index"
| "ProcessBatches g ((Hash, Batch) # rest) s Index =
     (case ProcessBatch g Batch s Index of
        Returns s' Index' \<Rightarrow> ProcessBatches g rest s' Index'
      | Throws s' e \<Rightarrow> Throws s' e
      | Undefined u \<Rightarrow> Undefined u)"

definition UpdateMVPInstances ::
  "('f::{zero,one}, 'm) glm \<Rightarrow> 'm \<Rightarrow> batches \<Rightarrow> bool \<Rightarrow> ('f, 'm) Renderer \<Rightarrow> (('f, 'm) Renderer, unit) result" where
  "UpdateMVPInstances g z ObjectBatches HasSkybox s =
     (let TotalObjectCount = of_nat (length (Objects s)) - (if HasSkybox then 1 else 0)
      in case ProcessBatches g ObjectBatches (EnsureBufferCapacity z TotalObjectCount s) 0 of
           Returns s' Index \<Rightarrow> Returns (record_call UploadMVPDataToGPU s') ()
         | Throws s' e \<Rightarrow> Throws s' e
         | Undefined u \<Rightarrow> Undefined u)"

definition Render ::
  "('f::{zero,one}, 'm) glm \<Rightarrow> 'm \<Rightarrow> ('f, 'm) Renderer \<Rightarrow> (('f, 'm) Renderer, unit) result" where
  "Render g z s =
     (let s0 = record_call ClearFrameBuffer s;
          ObjectBatches = fst (BatchSceneObjects (Objects s0));
          Skybox = snd (BatchSceneObjects (Objects s0))
      in case UpdateMVPInstances g z ObjectBatches (Skybox \<noteq> None) s0 of
           Returns s' u \<Rightarrow> Returns (RenderSkybox Skybox (RenderBatches ObjectBatches s')) ()
         | Throws s' e \<Rightarrow> Throws s' e
         | Undefined u \<Rightarrow> Undefined u)"

text \<open>
  The render loop: \<open>n\<close> frames of one scene, one after the other, stopping at the first
  failure. Nothing but the renderer touches the objects in between.
\<close>

fun Frames ::
  "('f::{zero,one}, 'm) glm \<Rightarrow> 'm \<Rightarrow> nat \<Rightarrow> ('f, 'm) Renderer \<Rightarrow> (('f, 'm) Renderer, unit) result" where
  "Frames g z 0 s = Returns s ()"
| "Frames g z (Suc n) s =
     (case Render g z s of
        Returns s' u \<Rightarrow> Frames g z n s'
      | Throws s' e \<Rightarrow> Throws s' e
      | Undefined u \<Rightarrow> Undefined u)"

section \<open>BaseMesh (Mesh.cpp)\<close>

text \<open>
  \<^verbatim>\<open>std::hash\<close> is implementation-defined: its three instances are parameters.
\<close>

record 'f Vertex =
  Position :: "'f vec3"
  Normal :: "'f vec3"
  TexCoords :: "'f \<times> 'f"

record 'f std_hash =
  hash_size_t :: "size_t \<Rightarrow> size_t"
  hash_float :: "'f \<Rightarrow> size_t"
  hash_uint32 :: "32 word \<Rightarrow> size_t"

record ('f, 'tex, 'mat) BaseMesh =
  m_Vertices :: "'f Vertex list"
  m_Indices :: "32 word list"
  m_Textures :: "'tex list"
  m_Material :: "'mat option"
  m_MeshHash :: size_t

text \<open>One step \<^verbatim>\<open>hash ^= h + 0x9e3779b9 + (hash << 6) + (hash >> 2)\<close>.\<close>

definition hash_step :: "size_t \<Rightarrow> size_t \<Rightarrow> size_t" where
  "hash_step hash h = hash XOR (h + 0x9e3779b9 + push_bit 6 hash + drop_bit 2 hash)"

definition hash_vertex :: "'f std_hash \<Rightarrow> size_t \<Rightarrow> 'f Vertex \<Rightarrow> size_t" where
  "hash_vertex H hash vertex =
     hash_step
       (hash_step
         (hash_step hash (hash_float H (vec3_x (Position vertex))))
         (hash_float H (vec3_y (Position vertex))))
       (hash_float H (vec3_z (Position vertex)))"

definition ComputeHash :: "'f std_hash \<Rightarrow> ('f, 'tex, 'mat) BaseMesh \<Rightarrow> ('f, 'tex, 'mat) BaseMesh" where
  "ComputeHash H m =
     m\<lparr>m_MeshHash :=
         foldl (\<lambda>hash index. hash_step hash (hash_uint32 H index))
           (foldl (hash_vertex H) (hash_size_t H (of_nat (length (m_Vertices m)))) (m_Vertices m))
           (m_Indices m)\<rparr>"

text \<open>
  The constructor; without \<^verbatim>\<open>bComputeHash\<close> the hash stays uninitialised (\<open>uninit\<close>).
\<close>

definition BaseMesh_ctor ::
  "'f std_hash \<Rightarrow> size_t \<Rightarrow> 'f Vertex list \<Rightarrow> 32 word list \<Rightarrow> 'tex list \<Rightarrow> bool \<Rightarrow> ('f, 'tex, 'mat) BaseMesh" where
  "BaseMesh_ctor H uninit Vertices Indices Textures bComputeHash =
     (let m = \<lparr>m_Vertices = Vertices, m_Indices = Indices, m_Textures = Textures,
               m_Material = None, m_MeshHash = uninit\<rparr>
      in if bComputeHash then ComputeHash H m else m)"

definition GetMeshHash :: "('f, 'tex, 'mat) BaseMesh \<Rightarrow> size_t" where
  "GetMeshHash m = m_MeshHash m"

definition SetMaterial :: "'mat option \<Rightarrow> ('f, 'tex, 'mat) BaseMesh \<Rightarrow> ('f, 'tex, 'mat) BaseMesh" where
  "SetMaterial Material m = m\<lparr>m_Material := Material\<rparr>"

section \<open>Notions used to state the properties\<close>

text \<open>The object capacity of the renderer's matrix store.\<close>

definition capacity :: "('f, 'm) Renderer \<Rightarrow> size_t" where
  "capacity s = GetObjectCount (m_MVPMatrixBuffer s)"

text \<open>A sequence of capacity requests, one after the other.\<close>

definition EnsureCapacity_each :: "'m \<Rightarrow> size_t list \<Rightarrow> ('f, 'm) Renderer \<Rightarrow> ('f, 'm) Renderer" where
  "EnsureCapacity_each z ns s = foldl (\<lambda>s n. EnsureBufferCapacity z n s) s ns"

text \<open>
  The model matrix as the specification words it:
  \<open>Translate(position) * RotateX(pitch) * RotateY(yaw) * RotateZ(roll) * Scale(scale)\<close>,
  the angles given in degrees.
\<close>

definition spec_Model :: "('f::{zero,one}, 'm) glm \<Rightarrow> ('f, 'm) Transform \<Rightarrow> 'm" where
  "spec_Model g t =
     mat_mul g (mat_mul g (mat_mul g (mat_mul g
       (translate g (m_Position t))
       (rotate g (radians g (fst (m_Rotation t))) (1, 0, 0)))
       (rotate g (radians g (fst (snd (m_Rotation t)))) (0, 1, 0)))
       (rotate g (radians g (snd (snd (m_Rotation t)))) (0, 0, 1)))
       (scale g (m_Scale t))"

text \<open>The cached matrix is valid when the dirty flag is clear.\<close>

definition cache_valid :: "('f::{zero,one}, 'm) glm \<Rightarrow> ('f, 'm) Transform \<Rightarrow> bool" where
  "cache_valid g t = (m_Dirty t \<or> m_CachedModelMatrix t = spec_Model g t)"

text \<open>
  An instance of the glm parameters for concrete runs: matrices are the expressions that
  build them, floats are integers, and \<open>radians\<close> leaves the angle as it is.
\<close>

datatype mat4 =
    Uninit | Zero | View | Projection
  | Translate "int vec3" | Rotate int "int vec3" | Scale "int vec3"
  | Mul mat4 mat4

definition expr_glm :: "(int, mat4) glm" where
  "expr_glm = \<lparr>radians = (\<lambda>a. a), translate = Translate, rotate = Rotate, scale = Scale,
               mat_mul = Mul\<rparr>"

definition expr_camera :: "mat4 BaseCamera" where
  "expr_camera = \<lparr>m_View = View, m_Projection = Projection\<rparr>"

text \<open>The transform a query leaves behind when it returns.\<close>

definition query_state :: "('f::{zero,one}, 'm) glm \<Rightarrow> ('f, 'm) Transform \<Rightarrow> ('f, 'm) Transform" where
  "query_state g t = (if m_Dirty t then RecalculateModelMatrix g t else t)"

text \<open>
  The objects of a scene that are not flagged as skybox and have the hash \<open>h\<close>, and the
  objects that are flagged, both as positions in registration order.
\<close>

definition members :: "('f, 'm) SceneObject list \<Rightarrow> size_t \<Rightarrow> nat list" where
  "members objs h = [i \<leftarrow> [0..<length objs]. \<not> IsSkybox (objs ! i) \<and> GetHash (objs ! i) = h]"

definition flagged :: "('f, 'm) SceneObject list \<Rightarrow> nat list" where
  "flagged objs = [i \<leftarrow> [0..<length objs]. IsSkybox (objs ! i)]"

text \<open>The vector stored under a key of the map (empty when the key is absent).\<close>

definition batch_of :: "batches \<Rightarrow> size_t \<Rightarrow> nat list" where
  "batch_of m h = (case map_of m h of None \<Rightarrow> [] | Some ps \<Rightarrow> ps)"

text \<open>The objects of all batches in the order in which the map is iterated.\<close>

definition batch_order :: "batches \<Rightarrow> nat list" where
  "batch_order m = concat (map snd m)"

definition unflagged :: "('f, 'm) SceneObject list \<Rightarrow> nat list" where
  "unflagged objs = [i \<leftarrow> [0..<length objs]. \<not> IsSkybox (objs ! i)]"

text \<open>The hash of a position, as \<^verbatim>\<open>ComputeHash\<close> folds it in: x, then y, then z.\<close>

definition hash_position :: "'f std_hash \<Rightarrow> size_t \<Rightarrow> 'f vec3 \<Rightarrow> size_t" where
  "hash_position H hash v =
     hash_step (hash_step (hash_step hash (hash_float H (fst v))) (hash_float H (fst (snd v))))
       (hash_float H (snd (snd v)))"

text \<open>Concrete scenes for the examples.\<close>

definition skybox_object :: "size_t \<Rightarrow> (int, mat4) SceneObject" where
  "skybox_object h = SetScene (Some (Some expr_camera)) (SceneObject_ctor Uninit True h)"

definition plain_object :: "size_t \<Rightarrow> (int, mat4) SceneObject" where
  "plain_object h = SetScene (Some (Some expr_camera)) (SceneObject_ctor Uninit False h)"

text \<open>A hash instance and two one-vertex meshes that differ in the normal only.\<close>

definition expr_hash :: "int std_hash" where
  "expr_hash = \<lparr>hash_size_t = (\<lambda>n. n), hash_float = of_int, hash_uint32 = ucast\<rparr>"

definition mesh_a :: "(int, nat, nat) BaseMesh" where
  "mesh_a = SetMaterial (Some 1)
     (BaseMesh_ctor expr_hash 0 [\<lparr>Position = (1, 2, 3), Normal = (0, 0, 1), TexCoords = (0, 0)\<rparr>] [0] [] True)"

definition mesh_b :: "(int, nat, nat) BaseMesh" where
  "mesh_b = SetMaterial (Some 2)
     (BaseMesh_ctor expr_hash 0 [\<lparr>Position = (1, 2, 3), Normal = (1, 0, 0), TexCoords = (1, 1)\<rparr>] [0] [7] True)"

text \<open>
  The calls of a frame, written out. \<open>init_calls p\<close> is the initialisation of an ordinary
  object, \<open>process_calls objs ps i\<close> are the calls of the matrix loop over the objects \<open>ps\<close>
  of a scene \<open>objs\<close> with the write cursor starting at \<open>i\<close>, \<open>draw_calls\<close> those of
  \<^verbatim>\<open>RenderBatches\<close>, \<open>skybox_calls\<close> those of \<^verbatim>\<open>RenderSkybox\<close> and \<open>ensure_calls\<close>
  those of \<^verbatim>\<open>EnsureBufferCapacity\<close>.
\<close>

definition init_calls :: "nat \<Rightarrow> call list" where
  "init_calls p = [PerformFirstPass p, BindMVPBuffer, PerformSecondPass p, SetNew p False]"

fun process_calls :: "('f, 'm) SceneObject list \<Rightarrow> nat list \<Rightarrow> size_t \<Rightarrow> call list" where
  "process_calls objs [] i = []"
| "process_calls objs (p # ps) i =
     (if m_New (objs ! p) then init_calls p else []) @ StoreMatrices p i # process_calls objs ps (i + 2)"

definition draw_calls :: "batches \<Rightarrow> call list" where
  "draw_calls B = concat (map (\<lambda>e. map (\<lambda>p. ObjectRender p (of_nat (length (snd e)))) (snd e)) B)"

definition skybox_calls :: "('f, 'm) SceneObject list \<Rightarrow> nat option \<Rightarrow> call list" where
  "skybox_calls objs S =
     (case S of
        None \<Rightarrow> []
      | Some p \<Rightarrow> (if m_New (objs ! p) then [PerformFirstPass p, SetNew p False] else [])
                  @ [ObjectRender p 1])"

definition ensure_calls :: "'m \<Rightarrow> size_t \<Rightarrow> 'm MatrixBuffer \<Rightarrow> call list" where
  "ensure_calls z n b =
     (if m_Buffer b = None \<or> m_ObjectCount b < n
      then [BindMVPBuffer, glBufferData (GetBufferSize (Resize z n b))] else [])"

text \<open>
  The state of the matrix store between frames: no allocation and capacity 0, or an
  allocation of two matrices per object of the capacity.
\<close>

definition buffer_inv :: "'m MatrixBuffer \<Rightarrow> bool" where
  "buffer_inv b =
     (case m_Buffer b of
        None \<Rightarrow> m_ObjectCount b = 0
      | Some xs \<Rightarrow> length xs = 2 * unat (m_ObjectCount b) \<and> length xs < 2 ^ 64)"

text \<open>Every object that is not flagged as skybox is attached to a scene with an active camera.\<close>

definition attached :: "('f, 'm) SceneObject list \<Rightarrow> bool" where
  "attached objs = (\<forall>ob\<in>set objs. IsSkybox ob \<or> (\<exists>c. m_OwningScene ob = Some (Some c)))"

text \<open>An object after the matrix loop has processed it, and the objects after a frame.\<close>

definition processed :: "('f::{zero,one}, 'm) glm \<Rightarrow> ('f, 'm) SceneObject \<Rightarrow> ('f, 'm) SceneObject" where
  "processed g ob = ob\<lparr>m_New := False, m_Transform := query_state g (m_Transform ob)\<rparr>"

definition frame_object ::
  "('f::{zero,one}, 'm) glm \<Rightarrow> ('f, 'm) SceneObject list \<Rightarrow> nat \<Rightarrow> ('f, 'm) SceneObject" where
  "frame_object g objs q =
     (if IsSkybox (objs ! q)
      then (if snd (BatchSceneObjects objs) = Some q then (objs ! q)\<lparr>m_New := False\<rparr> else objs ! q)
      else processed g (objs ! q))"

text \<open>The write cursors and the objects of the stores, and the objects drawn, of a call list.\<close>

fun stored_at :: "call list \<Rightarrow> size_t list" where
  "stored_at [] = []"
| "stored_at (StoreMatrices p i # cs) = i # stored_at cs"
| "stored_at (c # cs) = stored_at cs"

fun stored_objects :: "call list \<Rightarrow> nat list" where
  "stored_objects [] = []"
| "stored_objects (StoreMatrices p i # cs) = p # stored_objects cs"
| "stored_objects (c # cs) = stored_objects cs"

fun drawn :: "call list \<Rightarrow> (nat \<times> size_t) list" where
  "drawn [] = []"
| "drawn (ObjectRender p n # cs) = (p, n) # drawn cs"
| "drawn (c # cs) = drawn cs"

text \<open>The calls of a frame only: those recorded after the calls \<open>before\<close>.\<close>

definition calls_since :: "call list \<Rightarrow> ('f, 'm) Renderer \<Rightarrow> call list" where
  "calls_since before s = drop (length before) (calls s)"

text \<open>A scene of three ordinary objects, two of them of one hash, and a flagged object.\<close>

definition example_scene :: "(int, mat4) SceneObject list" where
  "example_scene = [plain_object 7, skybox_object 3, plain_object 5, plain_object 7]"

section \<open>Properties of the capacity store\<close>

lemma capacity_Ensure:
  "capacity (EnsureBufferCapacity z n s) = (if n \<le> capacity s then capacity s else n * 2)"
  by (auto simp: capacity_def EnsureBufferCapacity_def Resize_def GetObjectCount_def record_call_def Let_def)

lemma double_small:
  fixes n :: size_t
  assumes "unat n < 2 ^ 63"
  shows "unat (n * 2) = 2 * unat n"
  using assms by (simp add: unat_word_ariths)

lemma capacity_Ensure_ge:
  assumes "unat n < 2 ^ 63"
  shows "n \<le> capacity (EnsureBufferCapacity z n s)"
  using assms double_small[OF assms] by (simp add: capacity_Ensure word_le_nat_alt)

lemma capacity_Ensure_mono:
  assumes "unat n < 2 ^ 63"
  shows "capacity s \<le> capacity (EnsureBufferCapacity z n s)"
  using assms double_small[OF assms] by (simp add: capacity_Ensure word_le_nat_alt)

lemma capacity_each_mono:
  "\<forall>n\<in>set ns. unat n < 2 ^ 63 \<Longrightarrow> capacity s \<le> capacity (EnsureCapacity_each z ns s)"
proof (induction ns arbitrary: s)
  case Nil
  then show ?case by (simp add: EnsureCapacity_each_def)
next
  case (Cons n ns)
  have "capacity s \<le> capacity (EnsureBufferCapacity z n s)"
    using Cons.prems by (simp add: capacity_Ensure_mono)
  also have "\<dots> \<le> capacity (EnsureCapacity_each z ns (EnsureBufferCapacity z n s))"
    using Cons by simp
  finally show ?case by (simp add: EnsureCapacity_each_def)
qed

lemma capacity_each_ge:
  "\<forall>n\<in>set ns. unat n < 2 ^ 63 \<Longrightarrow> n \<in> set ns \<Longrightarrow> n \<le> capacity (EnsureCapacity_each z ns s)"
proof (induction ns arbitrary: s)
  case Nil
  then show ?case by simp
next
  case (Cons m ns)
  show ?case
  proof (cases "n = m")
    case True
    have "n \<le> capacity (EnsureBufferCapacity z n s)"
      using Cons.prems True by (simp add: capacity_Ensure_ge)
    also have "\<dots> \<le> capacity (EnsureCapacity_each z ns (EnsureBufferCapacity z n s))"
      using Cons.prems by (simp add: capacity_each_mono)
    finally show ?thesis using True by (simp add: EnsureCapacity_each_def)
  next
    case False
    then have "n \<in> set ns" using Cons.prems by simp
    then have "n \<le> capacity (EnsureCapacity_each z ns (EnsureBufferCapacity z m s))"
      using Cons by simp
    then show ?thesis by (simp add: EnsureCapacity_each_def)
  qed
qed

lemma each_append:
  "EnsureCapacity_each z (xs @ ys) s = EnsureCapacity_each z ys (EnsureCapacity_each z xs s)"
  by (simp add: EnsureCapacity_each_def)

lemma capacity_each_prefix:
  assumes "\<forall>n\<in>set ns. unat n < 2 ^ 63"
  shows "capacity (EnsureCapacity_each z (take k ns) s) \<le> capacity (EnsureCapacity_each z ns s)"
proof -
  have "\<forall>n\<in>set (drop k ns). unat n < 2 ^ 63"
    using assms by (meson in_set_dropD)
  then have "capacity (EnsureCapacity_each z (take k ns) s)
      \<le> capacity (EnsureCapacity_each z (drop k ns) (EnsureCapacity_each z (take k ns) s))"
    by (rule capacity_each_mono)
  then show ?thesis
    by (simp add: each_append[symmetric])
qed

lemma capacity_Ensure_grow:
  assumes "capacity s < n" "unat n < 2 ^ 63"
  shows "unat (capacity (EnsureBufferCapacity z n s)) = 2 * unat n"
proof -
  have "\<not> n \<le> capacity s" using assms(1) by simp
  then show ?thesis using double_small[OF assms(2)] by (simp add: capacity_Ensure)
qed

lemma capacity_Ensure_noop:
  "n \<le> capacity s \<Longrightarrow> capacity (EnsureBufferCapacity z n s) = capacity s"
  by (simp add: capacity_Ensure)

text \<open>
  C3 (amended). For every sequence of capacity requests, each below \<open>2 ^ 63\<close> (so that
  doubling it does not wrap around in \<^verbatim>\<open>size_t\<close>), starting from the empty store: the
  final capacity is at least every request, the capacity after any prefix of the sequence
  is at most the final one, a request not above the current capacity leaves the capacity
  unchanged, and a request above it sets the capacity to exactly twice the request.
\<close>

theorem EnsureCapacity_sequence:
  assumes "\<forall>n\<in>set ns. unat n < 2 ^ 63"
  shows "(\<forall>n\<in>set ns. n \<le> capacity (EnsureCapacity_each z ns (Renderer_ctor objs)))
       \<and> (\<forall>k. capacity (EnsureCapacity_each z (take k ns) (Renderer_ctor objs))
              \<le> capacity (EnsureCapacity_each z ns (Renderer_ctor objs)))
       \<and> (\<forall>n\<in>set ns. \<forall>s::('f, 'm) Renderer.
             (n \<le> capacity s \<longrightarrow> capacity (EnsureBufferCapacity z n s) = capacity s)
           \<and> (capacity s < n \<longrightarrow> unat (capacity (EnsureBufferCapacity z n s)) = 2 * unat n))"
  using assms
  by (simp add: capacity_each_ge capacity_each_prefix capacity_Ensure_grow capacity_Ensure_noop)

theorem EnsureCapacity_sequence_witness:
  "unat (10 :: size_t) < 2 ^ 63 \<and> unat (5 :: size_t) < 2 ^ 63
   \<and> capacity (EnsureCapacity_each (0::int) [10] (Renderer_ctor ([]::(int, int) SceneObject list))) = 20
   \<and> capacity (EnsureCapacity_each (0::int) [10, 5] (Renderer_ctor ([]::(int, int) SceneObject list))) = 20
   \<and> (10 :: size_t) \<le> 20"
  using EnsureCapacity_sequence [of "[10, 5]" "0::int" "[]::(int, int) SceneObject list"]
  by (simp add: capacity_Ensure EnsureCapacity_each_def)
     (simp add: capacity_def Renderer_ctor_def MatrixBuffer_default_def GetObjectCount_def)

text \<open>
  C3 as stated fails where doubling wraps around: after the requests \<open>10\<close> and
  \<open>2 ^ 63 + 1\<close> the capacity is \<open>2\<close>, below the larger request and below the capacity
  \<open>20\<close> reached after the first request.
\<close>

theorem EnsureCapacity_wraps_counterexample:
  "\<not> (2 ^ 63 + 1 \<le> capacity (EnsureCapacity_each (0::int) [10, 2 ^ 63 + 1] (Renderer_ctor ([]::(int, int) SceneObject list))))
   \<and> \<not> (capacity (EnsureCapacity_each (0::int) [10] (Renderer_ctor ([]::(int, int) SceneObject list)))
        \<le> capacity (EnsureCapacity_each (0::int) [10, 2 ^ 63 + 1] (Renderer_ctor ([]::(int, int) SceneObject list))))"
  by (simp add: capacity_Ensure EnsureCapacity_each_def)
     (simp add: capacity_def Renderer_ctor_def MatrixBuffer_default_def GetObjectCount_def)

section \<open>Properties of the transform\<close>

lemma mutate_Dirty: "m_Dirty (mutate t m)"
  by (cases m) (simp_all add: SetPosition_xyz_def SetPosition_def MoveBy_xyz_def MoveBy_def
      SetRotation_xyz_def SetRotation_def RotateBy_xyz_def RotateBy_def SetScale_xyz_def
      SetScale_def SetUniformScale_def ScaleBy_xyz_def ScaleBy_def ScaleByUniform_def)

lemma mutate_recalculations: "recalculations (mutate t m) = recalculations t"
  by (cases m) (simp_all add: SetPosition_xyz_def SetPosition_def MoveBy_xyz_def MoveBy_def
      SetRotation_xyz_def SetRotation_def RotateBy_xyz_def RotateBy_def SetScale_xyz_def
      SetScale_def SetUniformScale_def ScaleBy_xyz_def ScaleBy_def ScaleByUniform_def)

lemma mutate_cache_valid: "cache_valid g (mutate t m)"
  by (simp add: cache_valid_def mutate_Dirty)

lemma mutations_recalculations: "recalculations (foldl mutate t ms) = recalculations t"
  by (induction ms arbitrary: t) (simp_all add: mutate_recalculations)

lemma mutations_Dirty: "m_Dirty (foldl mutate t ms) = (m_Dirty t \<or> ms \<noteq> [])"
proof (induction ms rule: rev_induct)
  case Nil
  then show ?case by simp
next
  case (snoc m ms)
  then show ?case by (simp add: mutate_Dirty)
qed

lemma mutations_cache_valid: "cache_valid g t \<Longrightarrow> cache_valid g (foldl mutate t ms)"
  by (induction ms rule: rev_induct) (simp_all add: mutate_cache_valid)

lemma ctor_cache_valid: "cache_valid g (Transform_ctor u)"
  by (simp add: cache_valid_def Transform_ctor_def)

lemma Recalculate_model:
  "m_CachedModelMatrix (RecalculateModelMatrix g t) = spec_Model g t"
  by (simp add: RecalculateModelMatrix_def spec_Model_def vec3_x_def vec3_y_def vec3_z_def)

lemma spec_Model_Recalculate: "spec_Model g (RecalculateModelMatrix g t) = spec_Model g t"
  by (simp add: RecalculateModelMatrix_def spec_Model_def)

lemma attached_query:
  assumes "cache_valid g t"
  shows "ComputeModelViewProjection g (Some (Some (Some c))) t =
         Returns (query_state g t)
           (mat_mul g (mat_mul g (m_Projection c) (m_View c)) (spec_Model g t), spec_Model g t)"
  using assms
  by (auto simp: ComputeModelViewProjection_def ApplyCachedModelMatrix_def cache_valid_def
      query_state_def Recalculate_model)

lemma query_state_props:
  "\<not> m_Dirty (query_state g t)"
  "recalculations (query_state g t) = recalculations t + (if m_Dirty t then 1 else 0)"
  "m_Position (query_state g t) = m_Position t"
  "m_Rotation (query_state g t) = m_Rotation t"
  "m_Scale (query_state g t) = m_Scale t"
  "spec_Model g (query_state g t) = spec_Model g t"
  "cache_valid g t \<Longrightarrow> cache_valid g (query_state g t)"
  "query_state g (query_state g t) = query_state g t"
  by (auto simp: query_state_def RecalculateModelMatrix_def spec_Model_def cache_valid_def
      vec3_x_def vec3_y_def vec3_z_def)

text \<open>
  C4. For a transform whose owner is attached to a scene with an active camera, and whose
  cache is valid (as it is after the constructor, after every mutator and after every
  query): after any sequence \<open>ms\<close> of mutator calls, the query returns
  \<open>Projection * View * Model\<close> and \<open>Model\<close>, where \<open>Model\<close> is
  \<open>Translate * RotateX * RotateY * RotateZ * Scale\<close> of the current position, rotation and
  scale; the model matrix is recomputed exactly once if the transform was dirty or a
  mutator was called (however many), and not at all otherwise; and a second query with no
  mutation in between returns the same matrices and leaves the transform, with its count of
  recomputations, as it is.
\<close>

theorem ComputeModelViewProjection_cached:
  assumes "cache_valid g t"
  shows "\<exists>t'. ComputeModelViewProjection g (Some (Some (Some c))) (foldl mutate t ms) =
           Returns t' (mat_mul g (mat_mul g (m_Projection c) (m_View c)) (spec_Model g (foldl mutate t ms)),
                       spec_Model g (foldl mutate t ms))
         \<and> recalculations t' = recalculations t + (if m_Dirty t \<or> ms \<noteq> [] then 1 else 0)
         \<and> ComputeModelViewProjection g (Some (Some (Some c))) t' =
           Returns t' (mat_mul g (mat_mul g (m_Projection c) (m_View c)) (spec_Model g (foldl mutate t ms)),
                       spec_Model g (foldl mutate t ms))"
proof -
  let ?t1 = "foldl mutate t ms"
  have v: "cache_valid g ?t1" using assms by (rule mutations_cache_valid)
  have v': "cache_valid g (query_state g ?t1)" using v by (simp add: query_state_props)
  show ?thesis
    using attached_query[OF v, of c] attached_query[OF v', of c]
    by (simp add: query_state_props mutations_Dirty mutations_recalculations)
qed

text \<open>
  The guard of \<^verbatim>\<open>ComputeModelViewProjection\<close>: a transform with no owner (the null owner
  pointer, as for the transform of a camera) makes it throw, and the transform is left as
  it was.
\<close>

lemma ComputeModelViewProjection_null_owner_throws:
  "ComputeModelViewProjection g None t =
     Throws t ''Invalid owner. For camera usage, call the appropriate function to retrieve the MVP.''"
  by (simp add: ComputeModelViewProjection_def)

text \<open>
  C7. Not met by the code: for an object that was constructed and
  never attached to a scene, the owner is not null, the guard passes, and the null scene
  pointer of the owner is dereferenced; nothing is thrown.
\<close>

theorem ComputeModelViewProjection_detached_dereferences_null:
  "ComputeModelViewProjection expr_glm (Some (m_OwningScene (SceneObject_ctor Uninit False 7 :: (int, mat4) SceneObject)))
     (m_Transform (SceneObject_ctor Uninit False 7 :: (int, mat4) SceneObject)) = Undefined NullSceneDereference
   \<and> (\<nexists>t e. ComputeModelViewProjection expr_glm (Some (m_OwningScene (SceneObject_ctor Uninit False 7 :: (int, mat4) SceneObject)))
     (m_Transform (SceneObject_ctor Uninit False 7 :: (int, mat4) SceneObject)) = Throws t e)"
  by (simp add: ComputeModelViewProjection_def SceneObject_ctor_def)

theorem ComputeModelViewProjection_cached_witness:
  "cache_valid expr_glm (Transform_ctor Uninit) \<and>
   (\<exists>t'. ComputeModelViewProjection expr_glm (Some (Some (Some expr_camera)))
           (foldl mutate (Transform_ctor Uninit) [Call_SetPosition_xyz 1 2 3, Call_MoveBy (1, 1, 1)]) =
         Returns t' (Mul (Mul Projection View)
                       (Mul (Mul (Mul (Mul (Translate (2, 3, 4)) (Rotate 0 (1, 0, 0))) (Rotate 0 (0, 1, 0)))
                          (Rotate 0 (0, 0, 1))) (Scale (1, 1, 1))),
                     Mul (Mul (Mul (Mul (Translate (2, 3, 4)) (Rotate 0 (1, 0, 0))) (Rotate 0 (0, 1, 0)))
                          (Rotate 0 (0, 0, 1))) (Scale (1, 1, 1)))
       \<and> recalculations t' = 1)"
  using ComputeModelViewProjection_cached [of expr_glm "Transform_ctor Uninit" expr_camera
      "[Call_SetPosition_xyz 1 2 3, Call_MoveBy (1, 1, 1)]"]
  by (auto simp add: cache_valid_def spec_Model_def expr_glm_def expr_camera_def Transform_ctor_def
      SetPosition_xyz_def MoveBy_def vec3_add_def)

section \<open>Properties of batching\<close>

subsection \<open>The ordered map\<close>

lemma keys_map_push_back:
  "set (map fst (map_push_back k p m)) = insert k (set (map fst m))"
  by (induction k p m rule: map_push_back.induct) (fastforce split: if_splits)+

lemma sorted_map_push_back:
  "sorted_wrt (<) (map fst m) \<Longrightarrow> sorted_wrt (<) (map fst (map_push_back k p m))"
proof (induction m)
  case Nil
  then show ?case by simp
next
  case (Cons e m)
  obtain k' ps where e: "e = (k', ps)" by (cases e)
  have "\<forall>x\<in>set (map fst (map_push_back k p m)). k' < x" if "\<not> k < k'" "k \<noteq> k'"
    using that Cons.prems e by (auto simp: keys_map_push_back simp del: set_map)
  then show ?case using Cons e by (auto simp del: set_map)
qed

lemma batch_of_map_push_back:
  "sorted_wrt (<) (map fst m) \<Longrightarrow>
   batch_of (map_push_back k p m) h = (if h = k then batch_of m k @ [p] else batch_of m h)"
proof (induction m)
  case Nil
  then show ?case by (simp add: batch_of_def)
next
  case (Cons e m)
  obtain k' ps where e: "e = (k', ps)" by (cases e)
  have absent: "map_of m k = None" if "k < k'"
  proof -
    have "k \<notin> set (map fst m)" using that Cons.prems e by (auto simp del: set_map)
    then show ?thesis by (simp add: map_of_eq_None_iff)
  qed
  show ?case
    using Cons e absent by (auto simp: batch_of_def)
qed

lemma mset_order_map_push_back:
  "mset (batch_order (map_push_back k p m)) = add_mset p (mset (batch_order m))"
  by (induction m) (auto simp: batch_order_def)

lemma nonempty_map_push_back:
  "\<forall>e\<in>set m. snd e \<noteq> [] \<Longrightarrow> \<forall>e\<in>set (map_push_back k p m). snd e \<noteq> []"
  by (induction k p m rule: map_push_back.induct) (fastforce split: if_splits)+

lemma in_map_batch_of:
  "sorted_wrt (<) (map fst m) \<Longrightarrow> (h, ps) \<in> set m \<Longrightarrow> batch_of m h = ps"
proof -
  assume s: "sorted_wrt (<) (map fst m)" and i: "(h, ps) \<in> set m"
  have "distinct (map fst m)" using s by (simp add: strict_sorted_iff)
  then show ?thesis using i by (simp add: batch_of_def)
qed


subsection \<open>The loop of BatchSceneObjects\<close>

lemma upt_0_Suc: "[0..<Suc n] = 0 # map Suc [0..<n]"
  by (simp add: upt_conv_Cons map_Suc_upt del: upt_Suc)

lemma members_Cons:
  "members (ob # os) h =
     (if \<not> IsSkybox ob \<and> GetHash ob = h then [0] else []) @ map Suc (members os h)"
  by (simp add: members_def upt_0_Suc filter_map comp_def del: upt_Suc)

lemma flagged_Cons:
  "flagged (ob # os) = (if IsSkybox ob then [0] else []) @ map Suc (flagged os)"
  by (simp add: flagged_def upt_0_Suc filter_map comp_def del: upt_Suc)

lemma unflagged_Cons:
  "unflagged (ob # os) = (if \<not> IsSkybox ob then [0] else []) @ map Suc (unflagged os)"
  by (simp add: unflagged_def upt_0_Suc filter_map comp_def del: upt_Suc)

lemma from_sorted:
  "sorted_wrt (<) (map fst B) \<Longrightarrow> sorted_wrt (<) (map fst (fst (BatchSceneObjects_from i os B S)))"
  by (induction os arbitrary: i B S) (simp_all add: sorted_map_push_back)

lemma from_nonempty:
  "\<forall>e\<in>set B. snd e \<noteq> [] \<Longrightarrow> \<forall>e\<in>set (fst (BatchSceneObjects_from i os B S)). snd e \<noteq> []"
proof (induction os arbitrary: i B S)
  case Nil
  then show ?case by simp
next
  case (Cons ob os)
  show ?case
    using Cons.IH[OF Cons.prems] Cons.IH[OF nonempty_map_push_back[OF Cons.prems]]
    by simp
qed

lemma from_batch_of:
  "sorted_wrt (<) (map fst B) \<Longrightarrow>
   batch_of (fst (BatchSceneObjects_from i os B S)) h = batch_of B h @ map ((+) i) (members os h)"
proof (induction os arbitrary: i B S)
  case Nil
  then show ?case by (simp add: members_def)
next
  case (Cons ob os)
  show ?case
  proof (cases "IsSkybox ob")
    case True
    then show ?thesis using Cons by (simp add: members_Cons comp_def)
  next
    case False
    have s: "sorted_wrt (<) (map fst (map_push_back (GetHash ob) i B))"
      using Cons.prems by (rule sorted_map_push_back)
    show ?thesis
      using False Cons.IH[OF s] Cons.prems
      by (simp add: members_Cons comp_def batch_of_map_push_back)
  qed
qed

lemma from_mset:
  "mset (batch_order (fst (BatchSceneObjects_from i os B S))) =
     mset (batch_order B) + mset (map ((+) i) (unflagged os))"
proof (induction os arbitrary: i B S)
  case Nil
  then show ?case by (simp add: unflagged_def)
next
  case (Cons ob os)
  have "(+) (Suc i) = (\<lambda>x. Suc (i + x))" by auto
  then show ?case using Cons
    by (simp add: unflagged_Cons comp_def mset_order_map_push_back)
qed

lemma from_skybox:
  "snd (BatchSceneObjects_from i os B S) =
     (if flagged os = [] then S else Some (i + last (flagged os)))"
proof (induction os arbitrary: i B S)
  case Nil
  then show ?case by (simp add: flagged_def)
next
  case (Cons ob os)
  then show ?case
    by (simp add: flagged_Cons last_map)
qed

lemma from_keys:
  "set (map fst (fst (BatchSceneObjects_from i os B S))) =
     set (map fst B) \<union> GetHash ` {ob \<in> set os. \<not> IsSkybox ob}"
proof (induction os arbitrary: i B S)
  case Nil
  then show ?case by simp
next
  case (Cons ob os)
  then show ?case
    by (auto simp: keys_map_push_back simp del: set_map)
qed


subsection \<open>BatchSceneObjects\<close>

lemma Batch_sorted: "sorted_wrt (<) (map fst (fst (BatchSceneObjects objs)))"
  by (simp add: BatchSceneObjects_def from_sorted)

lemma Batch_batch_of: "batch_of (fst (BatchSceneObjects objs)) h = members objs h"
proof -
  have "batch_of [] h = []" "(+) (0::nat) = (\<lambda>x. x)" by (auto simp: batch_of_def)
  then show ?thesis by (simp add: BatchSceneObjects_def from_batch_of)
qed

lemma Batch_entry:
  assumes "(h, ps) \<in> set (fst (BatchSceneObjects objs))"
  shows "ps = members objs h" and "ps \<noteq> []"
proof -
  show "ps = members objs h"
    using in_map_batch_of[OF Batch_sorted assms] by (simp add: Batch_batch_of)
  have "\<forall>e\<in>set (fst (BatchSceneObjects objs)). snd e \<noteq> []"
    unfolding BatchSceneObjects_def by (rule from_nonempty) simp
  then show "ps \<noteq> []" using assms by fastforce
qed

lemma Batch_keys:
  "set (map fst (fst (BatchSceneObjects objs))) = GetHash ` {ob \<in> set objs. \<not> IsSkybox ob}"
  by (simp add: BatchSceneObjects_def from_keys del: set_map)

lemma Batch_order_mset:
  "mset (batch_order (fst (BatchSceneObjects objs))) = mset (unflagged objs)"
proof -
  have "batch_order [] = []" "(+) (0::nat) = (\<lambda>x. x)" by (auto simp: batch_order_def)
  then show ?thesis by (simp add: BatchSceneObjects_def from_mset)
qed

lemma Batch_order_set:
  "set (batch_order (fst (BatchSceneObjects objs))) = {i. i < length objs \<and> \<not> IsSkybox (objs ! i)}"
proof -
  have "set (batch_order (fst (BatchSceneObjects objs))) = set (unflagged objs)"
    using Batch_order_mset by (metis set_mset_mset)
  then show ?thesis by (auto simp: unflagged_def)
qed

lemma Batch_order_distinct: "distinct (batch_order (fst (BatchSceneObjects objs)))"
proof -
  have "distinct (unflagged objs)" by (simp add: unflagged_def)
  then show ?thesis using Batch_order_mset by (metis mset_eq_imp_distinct_iff)
qed

lemma Batch_order_length:
  "length (batch_order (fst (BatchSceneObjects objs))) = length (unflagged objs)"
  using Batch_order_mset by (metis size_mset)

lemma flagged_unflagged_length: "length (unflagged objs) + length (flagged objs) = length objs"
  using sum_length_filter_compl[of "\<lambda>i. \<not> IsSkybox (objs ! i)" "[0..<length objs]"]
  by (simp add: unflagged_def flagged_def)

lemma Batch_skybox:
  "snd (BatchSceneObjects objs) = (if flagged objs = [] then None else Some (last (flagged objs)))"
  by (simp add: BatchSceneObjects_def from_skybox)

lemma Batch_skybox_Some:
  assumes "snd (BatchSceneObjects objs) = Some p"
  shows "p < length objs" and "IsSkybox (objs ! p)" and "flagged objs \<noteq> []"
proof -
  have ne: "flagged objs \<noteq> []" and p: "p = last (flagged objs)"
    using assms by (auto simp: Batch_skybox split: if_splits)
  then have "p \<in> set (flagged objs)" by simp
  then show "p < length objs" and "IsSkybox (objs ! p)" by (auto simp: flagged_def)
  show "flagged objs \<noteq> []" by (rule ne)
qed


text \<open>
  C2 (amended). For every object list, the object selected as the background is the LAST
  object in registration order whose skybox flag is set (none when no flag is set), and
  no flagged object is placed into the hash-keyed batches; at most one object is selected.
\<close>

theorem BatchSceneObjects_skybox_last:
  "snd (BatchSceneObjects objs) = (if flagged objs = [] then None else Some (last (flagged objs)))
   \<and> set (batch_order (fst (BatchSceneObjects objs))) \<inter> set (flagged objs) = {}"
  by (auto simp: Batch_skybox Batch_order_set flagged_def)

text \<open>
  C2 as stated fails: with a flagged object at position 0, an ordinary object of hash 5 at
  position 1 and a flagged object at position 2, the background is the object at position
  2, not the first flagged one, and the only batch holds the object at position 1: neither
  flagged object is batched.
\<close>

theorem BatchSceneObjects_first_skybox_counterexample:
  "BatchSceneObjects [skybox_object 1, plain_object 5, skybox_object 2] = ([(5, [1])], Some 2)"
  by (simp add: BatchSceneObjects_def skybox_object_def plain_object_def SceneObject_ctor_def SetScene_def)

subsection \<open>The mesh hash\<close>

lemma hash_vertex_position: "hash_vertex H h v = hash_position H h (Position v)"
  by (simp add: hash_vertex_def hash_position_def vec3_x_def vec3_y_def vec3_z_def)

lemma foldl_hash_vertex:
  "foldl (hash_vertex H) h vs = foldl (hash_position H) h (map Position vs)"
  by (induction vs arbitrary: h) (simp_all add: hash_vertex_position)

lemma GetMeshHash_ctor:
  "GetMeshHash (BaseMesh_ctor H u vs ixs ts True) =
     foldl (\<lambda>hash index. hash_step hash (hash_uint32 H index))
       (foldl (hash_position H) (hash_size_t H (of_nat (length (map Position vs)))) (map Position vs))
       ixs"
  by (simp add: GetMeshHash_def BaseMesh_ctor_def ComputeHash_def foldl_hash_vertex)

lemma same_hash:
  assumes "map Position vs1 = map Position vs2"
  shows "GetMeshHash (SetMaterial mat1 (BaseMesh_ctor H u1 vs1 ixs ts1 True)) =
         GetMeshHash (SetMaterial mat2 (BaseMesh_ctor H u2 vs2 ixs ts2 True))"
proof -
  have "GetMeshHash (BaseMesh_ctor H u1 vs1 ixs ts1 True) = GetMeshHash (BaseMesh_ctor H u2 vs2 ixs ts2 True)"
    unfolding GetMeshHash_ctor assms ..
  then show ?thesis by (simp add: GetMeshHash_def SetMaterial_def)
qed

lemma same_batch:
  assumes "i < length objs" "j < length objs" "\<not> IsSkybox (objs ! i)" "\<not> IsSkybox (objs ! j)"
    and "GetHash (objs ! i) = GetHash (objs ! j)"
  shows "\<exists>ps. (GetHash (objs ! i), ps) \<in> set (fst (BatchSceneObjects objs)) \<and> i \<in> set ps \<and> j \<in> set ps"
proof -
  let ?h = "GetHash (objs ! i)"
  have "?h \<in> set (map fst (fst (BatchSceneObjects objs)))"
    unfolding Batch_keys using assms(1,3) by (metis (mono_tags, lifting) image_eqI mem_Collect_eq nth_mem)
  then obtain ps where ps: "(?h, ps) \<in> set (fst (BatchSceneObjects objs))" by auto
  then have "ps = members objs ?h" by (rule Batch_entry)
  then have "i \<in> set ps" "j \<in> set ps" using assms by (auto simp: members_def)
  then show ?thesis using ps by blast
qed


text \<open>
  C10 (amended). The mesh hash is a function of the vertex positions (and so of their
  count) and of the indices only: two meshes with equal position lists and equal index
  lists have equal hashes, whatever their normals, texture coordinates, textures and
  materials; and two objects of a scene that carry these hashes and are not flagged as
  skybox are placed in the same batch.
\<close>

theorem mesh_hash_positions_indices:
  assumes "map Position vs1 = map Position vs2"
  shows "GetMeshHash (SetMaterial mat1 (BaseMesh_ctor H u1 vs1 ixs ts1 True)) =
         GetMeshHash (SetMaterial mat2 (BaseMesh_ctor H u2 vs2 ixs ts2 True))
       \<and> (\<forall>(objs :: ('o, 'p) SceneObject list) i j. i < length objs \<and> j < length objs
             \<and> \<not> IsSkybox (objs ! i) \<and> \<not> IsSkybox (objs ! j)
             \<and> GetHash (objs ! i) = GetMeshHash (SetMaterial mat1 (BaseMesh_ctor H u1 vs1 ixs ts1 True))
             \<and> GetHash (objs ! j) = GetMeshHash (SetMaterial mat2 (BaseMesh_ctor H u2 vs2 ixs ts2 True))
           \<longrightarrow> (\<exists>ps. (GetHash (objs ! i), ps) \<in> set (fst (BatchSceneObjects objs))
                    \<and> i \<in> set ps \<and> j \<in> set ps))"
proof (intro conjI allI impI)
  show h: "GetMeshHash (SetMaterial mat1 (BaseMesh_ctor H u1 vs1 ixs ts1 True)) =
        GetMeshHash (SetMaterial mat2 (BaseMesh_ctor H u2 vs2 ixs ts2 True))"
    using assms by (rule same_hash)
  fix objs :: "('o, 'p) SceneObject list" and i j
  assume a: "i < length objs \<and> j < length objs
             \<and> \<not> IsSkybox (objs ! i) \<and> \<not> IsSkybox (objs ! j)
             \<and> GetHash (objs ! i) = GetMeshHash (SetMaterial mat1 (BaseMesh_ctor H u1 vs1 ixs ts1 True))
             \<and> GetHash (objs ! j) = GetMeshHash (SetMaterial mat2 (BaseMesh_ctor H u2 vs2 ixs ts2 True))"
  then have "GetHash (objs ! i) = GetHash (objs ! j)" using h by simp
  then show "\<exists>ps. (GetHash (objs ! i), ps) \<in> set (fst (BatchSceneObjects objs)) \<and> i \<in> set ps \<and> j \<in> set ps"
    using a by (intro same_batch) simp_all
qed

lemma mesh_ab: "GetMeshHash mesh_a = GetMeshHash mesh_b"
  unfolding mesh_a_def mesh_b_def by (rule same_hash) simp

theorem mesh_hash_positions_indices_witness:
  "GetMeshHash mesh_a = GetMeshHash mesh_b
   \<and> (\<exists>ps. (GetMeshHash mesh_a, ps) \<in> set (fst (BatchSceneObjects
               [plain_object (GetMeshHash mesh_a), plain_object 0, plain_object (GetMeshHash mesh_b)]))
          \<and> 0 \<in> set ps \<and> 2 \<in> set ps)"
proof -
  let ?objs = "[plain_object (GetMeshHash mesh_a), plain_object 0, plain_object (GetMeshHash mesh_b)]"
  have p: "map Position [\<lparr>Position = (1, 2, 3), Normal = (0, 0, 1), TexCoords = (0, 0)\<rparr>] =
        map Position [\<lparr>Position = (1::int, 2::int, 3::int), Normal = (1, 0, 0), TexCoords = (1, 1)\<rparr>]"
    by simp
  note t = mesh_hash_positions_indices [OF p, where ?mat1.0 = "Some (1::nat)" and H = expr_hash
      and ?u1.0 = 0 and ixs = "[0]" and ?ts1.0 = "[]::nat list" and ?mat2.0 = "Some (2::nat)"
      and ?u2.0 = 0 and ?ts2.0 = "[7::nat]" and 'o = int and 'p = mat4, folded mesh_a_def mesh_b_def]
  have "GetHash (?objs ! 0) = GetMeshHash mesh_a" "GetHash (?objs ! 2) = GetMeshHash mesh_b"
    "\<not> IsSkybox (?objs ! 0)" "\<not> IsSkybox (?objs ! 2)"
    by (simp_all add: plain_object_def SceneObject_ctor_def SetScene_def)
  then have "\<exists>ps. (GetHash (?objs ! 0), ps) \<in> set (fst (BatchSceneObjects ?objs)) \<and> 0 \<in> set ps \<and> 2 \<in> set ps"
    using t[THEN conjunct2, rule_format, of 0 ?objs 2] by simp
  then show ?thesis using t[THEN conjunct1]
    by (simp add: plain_object_def SceneObject_ctor_def SetScene_def)
qed

text \<open>
  C10 as stated fails for its last part: of two objects with equal mesh hashes, one
  flagged as skybox, only the unflagged one is in the batch of that hash.
\<close>

theorem mesh_hash_skybox_counterexample:
  "GetMeshHash mesh_a = GetMeshHash mesh_b
   \<and> BatchSceneObjects [plain_object (GetMeshHash mesh_a), skybox_object (GetMeshHash mesh_b)]
       = ([(GetMeshHash mesh_a, [0])], Some 1)"
  using mesh_ab
  by (simp add: BatchSceneObjects_def skybox_object_def plain_object_def SceneObject_ctor_def SetScene_def)

section \<open>Properties of a frame\<close>

subsection \<open>One object of the matrix loop\<close>

lemma attached_returns:
  "ComputeModelViewProjection g (Some (Some (Some c))) t =
     Returns (query_state g t)
       (mat_mul g (mat_mul g (m_Projection c) (m_View c)) (m_CachedModelMatrix (query_state g t)),
        m_CachedModelMatrix (query_state g t))"
  by (simp add: ComputeModelViewProjection_def ApplyCachedModelMatrix_def query_state_def)

lemma unat_Suc_small:
  fixes i :: size_t
  assumes "unat i + 2 \<le> n" "n < 2 ^ 64"
  shows "unat (i + 1) = unat i + 1" and "unat (i + 2) = unat i + 2"
  using assms by (simp_all add: unat_word_ariths)

lemma not_New_update: "\<not> m_New ob \<Longrightarrow> ob\<lparr>m_New := False\<rparr> = ob"
  by (cases ob) simp

lemma ProcessObject_attached:
  assumes p: "p < length (Objects s)"
    and a: "m_OwningScene (Objects s ! p) = Some (Some c)"
    and b: "m_Buffer (m_MVPMatrixBuffer s) = Some xs"
    and r: "unat Index + 2 \<le> length xs" "length xs < 2 ^ 64"
  shows "\<exists>s'. ProcessObjectForMVP g p s Index = Returns s' (Index + 2)
      \<and> calls s' = calls s @ (if m_New (Objects s ! p) then init_calls p else []) @ [StoreMatrices p Index]
      \<and> Objects s' = (Objects s)[p := processed g (Objects s ! p)]
      \<and> m_ObjectCount (m_MVPMatrixBuffer s') = m_ObjectCount (m_MVPMatrixBuffer s)
      \<and> (\<exists>xs'. m_Buffer (m_MVPMatrixBuffer s') = Some xs' \<and> length xs' = length xs)"
proof -
  define s1 where "s1 = (if m_New (Objects s ! p)
                then Object_SetNew p False
                       (record_call (PerformSecondPass p)
                         (record_call BindMVPBuffer
                           (record_call (PerformFirstPass p) s)))
                else s)"
  define ob where "ob = (Objects s ! p)\<lparr>m_New := False\<rparr>"
  define t where "t = query_state g (m_Transform (Objects s ! p))"
  define out where "out = (mat_mul g (mat_mul g (m_Projection c) (m_View c)) (m_CachedModelMatrix t),
        m_CachedModelMatrix t)"
  have u: "unat (Index + 1) = unat Index + 1" using r by (rule unat_Suc_small)
  have objs1: "Objects s1 = (Objects s)[p := ob]"
  proof (cases "m_New (Objects s ! p)")
    case True
    then show ?thesis by (simp add: s1_def ob_def Object_SetNew_def record_call_def)
  next
    case False
    then have "ob = Objects s ! p" unfolding ob_def by (rule not_New_update)
    then show ?thesis using False by (simp add: s1_def)
  qed
  have buf1: "m_MVPMatrixBuffer s1 = m_MVPMatrixBuffer s"
    by (simp add: s1_def Object_SetNew_def record_call_def)
  have calls1: "calls s1 = calls s @ (if m_New (Objects s ! p) then init_calls p else [])"
    by (simp add: s1_def Object_SetNew_def record_call_def init_calls_def)
  have nth1: "Objects s1 ! p = ob" using p by (simp add: objs1)
  have own: "m_OwningScene ob = Some (Some c)" and tr: "m_Transform ob = m_Transform (Objects s ! p)"
    using a by (simp_all add: ob_def)
  have cmp: "ComputeModelViewProjection g (Some (m_OwningScene ob)) (m_Transform ob) = Returns t out"
    unfolding own tr t_def out_def by (rule attached_returns)
  define s' where "s' = record_call (StoreMatrices p Index)
                           (s1\<lparr>Objects := (Objects s1)[p := ob\<lparr>m_Transform := t\<rparr>],
                               m_MVPMatrixBuffer := (m_MVPMatrixBuffer s1)
                                 \<lparr>m_Buffer := Some (xs[unat Index := fst out, unat (Index + 1) := snd out])\<rparr>\<rparr>)"
  have chk: "unat Index < length xs \<and> unat (Index + 1) < length xs" using r u by simp
  have R: "ProcessObjectForMVP g p s Index = Returns s' (Index + 2)"
    unfolding ProcessObjectForMVP_def s1_def[symmetric] Let_def nth1 cmp buf1 b s'_def
    using chk by simp
  have pr: "ob\<lparr>m_Transform := t\<rparr> = processed g (Objects s ! p)"
    by (simp add: ob_def t_def processed_def)
  have C: "calls s' = calls s @ (if m_New (Objects s ! p) then init_calls p else []) @ [StoreMatrices p Index]"
    by (simp add: s'_def record_call_def calls1)
  have O: "Objects s' = (Objects s)[p := processed g (Objects s ! p)]"
    by (simp add: s'_def record_call_def objs1 pr)
  have N: "m_ObjectCount (m_MVPMatrixBuffer s') = m_ObjectCount (m_MVPMatrixBuffer s)"
    by (simp add: s'_def record_call_def buf1)
  have B: "\<exists>xs'. m_Buffer (m_MVPMatrixBuffer s') = Some xs' \<and> length xs' = length xs"
    by (simp add: s'_def record_call_def)
  have "ProcessObjectForMVP g p s Index = Returns s' (Index + 2)
      \<and> calls s' = calls s @ (if m_New (Objects s ! p) then init_calls p else []) @ [StoreMatrices p Index]
      \<and> Objects s' = (Objects s)[p := processed g (Objects s ! p)]
      \<and> m_ObjectCount (m_MVPMatrixBuffer s') = m_ObjectCount (m_MVPMatrixBuffer s)
      \<and> (\<exists>xs'. m_Buffer (m_MVPMatrixBuffer s') = Some xs' \<and> length xs' = length xs)"
    using R C O N B by (intro conjI)
  then show ?thesis by (rule exI)
qed

subsection \<open>The matrix loop\<close>

lemma process_calls_cong:
  "\<forall>p\<in>set ps. m_New (objs ! p) = m_New (objs' ! p) \<Longrightarrow>
   process_calls objs ps i = process_calls objs' ps i"
  by (induction ps arbitrary: i) simp_all

lemma ProcessBatch_attached:
  assumes "distinct ps"
    and "\<forall>p\<in>set ps. p < length (Objects s) \<and> (\<exists>c. m_OwningScene (Objects s ! p) = Some (Some c))"
    and "ps = [] \<or> (\<exists>xs. m_Buffer (m_MVPMatrixBuffer s) = Some xs
            \<and> unat Index + 2 * length ps \<le> length xs \<and> length xs < 2 ^ 64)"
  shows "\<exists>s'. ProcessBatch g ps s Index = Returns s' (Index + 2 * of_nat (length ps))
      \<and> calls s' = calls s @ process_calls (Objects s) ps Index
      \<and> length (Objects s') = length (Objects s)
      \<and> (\<forall>q<length (Objects s). Objects s' ! q =
            (if q \<in> set ps then processed g (Objects s ! q) else Objects s ! q))
      \<and> m_ObjectCount (m_MVPMatrixBuffer s') = m_ObjectCount (m_MVPMatrixBuffer s)
      \<and> map_option length (m_Buffer (m_MVPMatrixBuffer s')) = map_option length (m_Buffer (m_MVPMatrixBuffer s))"
  using assms
proof (induction ps arbitrary: s Index)
  case Nil
  then show ?case by simp
next
  case (Cons p ps)
  from Cons.prems(3) obtain xs where xs: "m_Buffer (m_MVPMatrixBuffer s) = Some xs"
    and room: "unat Index + 2 * length (p # ps) \<le> length xs" and lt: "length xs < 2 ^ 64"
    by auto
  from Cons.prems(2) obtain c where p: "p < length (Objects s)"
    and c: "m_OwningScene (Objects s ! p) = Some (Some c)" by auto
  have room1: "unat Index + 2 \<le> length xs" using room by simp
  from ProcessObject_attached[OF p c xs room1 lt, of g]
  obtain s1 xs1 where s1: "ProcessObjectForMVP g p s Index = Returns s1 (Index + 2)"
    and calls1: "calls s1 = calls s @ (if m_New (Objects s ! p) then init_calls p else []) @ [StoreMatrices p Index]"
    and objs1: "Objects s1 = (Objects s)[p := processed g (Objects s ! p)]"
    and cnt1: "m_ObjectCount (m_MVPMatrixBuffer s1) = m_ObjectCount (m_MVPMatrixBuffer s)"
    and xs1: "m_Buffer (m_MVPMatrixBuffer s1) = Some xs1" "length xs1 = length xs"
    by blast
  have notin: "p \<notin> set ps" and d: "distinct ps" using Cons.prems(1) by simp_all
  have u2: "unat (Index + 2) = unat Index + 2" using room1 lt by (rule unat_Suc_small)
  have same: "Objects s1 ! q = Objects s ! q" if "q \<in> set ps" for q
    using that notin objs1 by (metis nth_list_update_neq)
  have h2: "\<forall>q\<in>set ps. q < length (Objects s1) \<and> (\<exists>c. m_OwningScene (Objects s1 ! q) = Some (Some c))"
    using Cons.prems(2) same objs1 by simp
  have h3: "ps = [] \<or> (\<exists>xs. m_Buffer (m_MVPMatrixBuffer s1) = Some xs
            \<and> unat (Index + 2) + 2 * length ps \<le> length xs \<and> length xs < 2 ^ 64)"
    using xs1 room lt u2 by simp
  from Cons.IH[OF d h2 h3]
  obtain s' where r: "ProcessBatch g ps s1 (Index + 2) = Returns s' (Index + 2 + 2 * of_nat (length ps))"
    and calls': "calls s' = calls s1 @ process_calls (Objects s1) ps (Index + 2)"
    and len': "length (Objects s') = length (Objects s1)"
    and objs': "\<forall>q<length (Objects s1). Objects s' ! q =
            (if q \<in> set ps then processed g (Objects s1 ! q) else Objects s1 ! q)"
    and cnt': "m_ObjectCount (m_MVPMatrixBuffer s') = m_ObjectCount (m_MVPMatrixBuffer s1)"
    and buf': "map_option length (m_Buffer (m_MVPMatrixBuffer s')) = map_option length (m_Buffer (m_MVPMatrixBuffer s1))"
    by blast
  have pc: "process_calls (Objects s1) ps (Index + 2) = process_calls (Objects s) ps (Index + 2)"
    by (rule process_calls_cong) (simp add: same)
  have 1: "ProcessBatch g (p # ps) s Index = Returns s' (Index + 2 * of_nat (length (p # ps)))"
    using s1 r by (simp add: algebra_simps)
  have 2: "calls s' = calls s @ process_calls (Objects s) (p # ps) Index"
    using calls' calls1 pc by simp
  have 3: "length (Objects s') = length (Objects s)" using len' objs1 by simp
  have 4: "\<forall>q<length (Objects s). Objects s' ! q =
            (if q \<in> set (p # ps) then processed g (Objects s ! q) else Objects s ! q)"
  proof (intro allI impI)
    fix q assume q: "q < length (Objects s)"
    then have q1: "q < length (Objects s1)" using objs1 by simp
    show "Objects s' ! q = (if q \<in> set (p # ps) then processed g (Objects s ! q) else Objects s ! q)"
    proof (cases "q = p")
      case True
      then show ?thesis using objs'[rule_format, OF q1] notin objs1 q by simp
    next
      case False
      then have "Objects s1 ! q = Objects s ! q" using objs1 by simp
      then show ?thesis using objs'[rule_format, OF q1] False by simp
    qed
  qed
  have 5: "m_ObjectCount (m_MVPMatrixBuffer s') = m_ObjectCount (m_MVPMatrixBuffer s)"
    using cnt' cnt1 by simp
  have 6: "map_option length (m_Buffer (m_MVPMatrixBuffer s')) = map_option length (m_Buffer (m_MVPMatrixBuffer s))"
    using buf' xs1 xs by simp
  show ?case using 1 2 3 4 5 6 by blast
qed

lemma ProcessBatch_append:
  "ProcessBatch g (ps @ qs) s i =
     (case ProcessBatch g ps s i of
        Returns s' i' \<Rightarrow> ProcessBatch g qs s' i'
      | Throws s' e \<Rightarrow> Throws s' e
      | Undefined u \<Rightarrow> Undefined u)"
  by (induction ps arbitrary: s i) (simp_all split: result.splits)

lemma ProcessBatches_order: "ProcessBatches g B s i = ProcessBatch g (batch_order B) s i"
proof (induction B arbitrary: s i)
  case Nil
  then show ?case by (simp add: batch_order_def)
next
  case (Cons e B)
  obtain h ps where e: "e = (h, ps)" by (cases e)
  have "batch_order (e # B) = ps @ batch_order B" by (simp add: e batch_order_def)
  then show ?case using Cons by (simp add: e ProcessBatch_append split: result.splits)
qed

subsection \<open>The draw loops\<close>

lemma RenderBatch_eq: "RenderBatch n ps s = s\<lparr>calls := calls s @ map (\<lambda>p. ObjectRender p n) ps\<rparr>"
  by (induction ps arbitrary: s) (simp_all add: record_call_def)

lemma RenderBatches_eq: "RenderBatches B s = s\<lparr>calls := calls s @ draw_calls B\<rparr>"
proof (induction B arbitrary: s)
  case Nil
  then show ?case by (simp add: draw_calls_def)
next
  case (Cons e B)
  obtain h ps where e: "e = (h, ps)" by (cases e)
  show ?case by (simp add: e Cons RenderBatch_eq draw_calls_def)
qed

lemma RenderSkybox_calls: "calls (RenderSkybox S s) = calls s @ skybox_calls (Objects s) S"
  by (simp add: RenderSkybox_def skybox_calls_def record_call_def Object_SetNew_def split: option.splits)

lemma RenderSkybox_buffer: "m_MVPMatrixBuffer (RenderSkybox S s) = m_MVPMatrixBuffer s"
  by (simp add: RenderSkybox_def record_call_def Object_SetNew_def split: option.splits)

lemma RenderSkybox_Objects:
  "Objects (RenderSkybox S s) =
     (case S of None \<Rightarrow> Objects s | Some p \<Rightarrow> (Objects s)[p := (Objects s ! p)\<lparr>m_New := False\<rparr>])"
proof (cases S)
  case None
  then show ?thesis by (simp add: RenderSkybox_def)
next
  case (Some p)
  show ?thesis
  proof (cases "m_New (Objects s ! p)")
    case True
    then show ?thesis using Some by (simp add: RenderSkybox_def record_call_def Object_SetNew_def)
  next
    case False
    then have "(Objects s)[p := (Objects s ! p)\<lparr>m_New := False\<rparr>] = Objects s"
      by (simp add: not_New_update)
    then show ?thesis using Some False by (simp add: RenderSkybox_def record_call_def)
  qed
qed

subsection \<open>The capacity of the store\<close>

lemma Ensure_Objects: "Objects (EnsureBufferCapacity z n s) = Objects s"
  by (simp add: EnsureBufferCapacity_def record_call_def Let_def)

lemma Ensure_calls:
  "calls (EnsureBufferCapacity z n s) = calls s @ ensure_calls z n (m_MVPMatrixBuffer s)"
  by (simp add: EnsureBufferCapacity_def record_call_def Let_def ensure_calls_def GetObjectCount_def)

lemma quadruple_small:
  fixes n :: size_t
  assumes "unat n < 2 ^ 62"
  shows "unat (n * 2) = 2 * unat n" and "unat (n * 2 * 2) = 4 * unat n"
  using assms by (simp_all add: unat_word_ariths)

lemma Ensure_buffer:
  assumes "buffer_inv (m_MVPMatrixBuffer s)" and "unat n < 2 ^ 62"
  shows "buffer_inv (m_MVPMatrixBuffer (EnsureBufferCapacity z n s))"
    and "n \<le> m_ObjectCount (m_MVPMatrixBuffer (EnsureBufferCapacity z n s))"
    and "n = 0 \<or> m_Buffer (m_MVPMatrixBuffer (EnsureBufferCapacity z n s)) \<noteq> None"
proof -
  let ?b = "m_MVPMatrixBuffer s"
  have grow: "buffer_inv (Resize z n ?b) \<and> n \<le> m_ObjectCount (Resize z n ?b)
      \<and> m_Buffer (Resize z n ?b) \<noteq> None" if "\<not> n \<le> m_ObjectCount ?b"
    using that quadruple_small[OF assms(2)] assms(2)
    by (simp add: Resize_def Let_def make_unique_def buffer_inv_def word_le_nat_alt)
  have keep: "Resize z n ?b = ?b" if "n \<le> m_ObjectCount ?b"
    using that by (simp add: Resize_def)
  have nul: "m_ObjectCount ?b = 0" if "m_Buffer ?b = None"
    using that assms(1) by (simp add: buffer_inv_def)
  show "buffer_inv (m_MVPMatrixBuffer (EnsureBufferCapacity z n s))"
    using grow keep assms(1)
    by (cases "n \<le> m_ObjectCount ?b")
       (auto simp: EnsureBufferCapacity_def record_call_def Let_def GetObjectCount_def)
  show "n \<le> m_ObjectCount (m_MVPMatrixBuffer (EnsureBufferCapacity z n s))"
    using grow keep
    by (cases "n \<le> m_ObjectCount ?b")
       (auto simp: EnsureBufferCapacity_def record_call_def Let_def GetObjectCount_def)
  show "n = 0 \<or> m_Buffer (m_MVPMatrixBuffer (EnsureBufferCapacity z n s)) \<noteq> None"
    using grow keep nul
    by (cases "n \<le> m_ObjectCount ?b")
       (auto simp: EnsureBufferCapacity_def record_call_def Let_def GetObjectCount_def)
qed

subsection \<open>A frame\<close>

lemma buffer_inv_cong:
  "m_ObjectCount b' = m_ObjectCount b \<Longrightarrow>
   map_option length (m_Buffer b') = map_option length (m_Buffer b) \<Longrightarrow>
   buffer_inv b' = buffer_inv b"
  by (cases "m_Buffer b"; cases "m_Buffer b'") (auto simp: buffer_inv_def)

lemma total_count:
  assumes "length objs < 2 ^ 62"
  shows "unat (of_nat (length objs) - (if snd (BatchSceneObjects objs) \<noteq> None then 1 else 0) :: size_t)
         = length objs - (if flagged objs = [] then 0 else 1)"
proof -
  have L: "unat (of_nat (length objs) :: size_t) = length objs"
    using assms by (simp add: unat_of_nat)
  show ?thesis
  proof (cases "flagged objs = []")
    case True
    then show ?thesis using L by (simp add: Batch_skybox)
  next
    case False
    then have "length (flagged objs) \<noteq> 0" by simp
    then have "length objs \<noteq> 0" using flagged_unflagged_length[of objs] by auto
    then have "(of_nat (length objs) :: size_t) \<noteq> 0" using L by (metis unat_0)
    then have "unat (of_nat (length objs) - 1 :: size_t) = length objs - 1"
      using L by (simp add: unat_minus_one)
    then show ?thesis using False by (simp add: Batch_skybox)
  qed
qed

lemma order_room:
  "length (batch_order (fst (BatchSceneObjects objs))) \<le> length objs - (if flagged objs = [] then 0 else 1)"
proof -
  have "flagged objs \<noteq> [] \<Longrightarrow> 1 \<le> length (flagged objs)"
    by (cases "flagged objs") simp_all
  then show ?thesis
    using flagged_unflagged_length[of objs] by (auto simp: Batch_order_length)
qed

lemma Render_frame:
  fixes s :: "('f::{zero,one}, 'm) Renderer"
  assumes len: "length (Objects s) < 2 ^ 62"
    and inv: "buffer_inv (m_MVPMatrixBuffer s)"
    and att: "attached (Objects s)"
  shows "\<exists>s'. Render g z s = Returns s' ()
      \<and> calls s' = calls s @ ClearFrameBuffer
            # ensure_calls z (of_nat (length (Objects s))
                 - (if snd (BatchSceneObjects (Objects s)) \<noteq> None then 1 else 0)) (m_MVPMatrixBuffer s)
            @ process_calls (Objects s) (batch_order (fst (BatchSceneObjects (Objects s)))) 0
            @ UploadMVPDataToGPU # draw_calls (fst (BatchSceneObjects (Objects s)))
            @ skybox_calls (Objects s) (snd (BatchSceneObjects (Objects s)))
      \<and> length (Objects s') = length (Objects s)
      \<and> (\<forall>q<length (Objects s). Objects s' ! q = frame_object g (Objects s) q)
      \<and> buffer_inv (m_MVPMatrixBuffer s')
      \<and> of_nat (length (Objects s)) - (if snd (BatchSceneObjects (Objects s)) \<noteq> None then 1 else 0)
           \<le> m_ObjectCount (m_MVPMatrixBuffer s')"
proof -
  let ?objs = "Objects s"
  let ?B = "fst (BatchSceneObjects ?objs)"
  let ?S = "snd (BatchSceneObjects ?objs)"
  define n :: size_t where "n = of_nat (length ?objs) - (if ?S \<noteq> None then 1 else 0)"
  let ?s0 = "record_call ClearFrameBuffer s"
  let ?s1 = "EnsureBufferCapacity z n ?s0"
  let ?ord = "batch_order ?B"
  have objs0: "Objects ?s0 = ?objs" and buf0: "m_MVPMatrixBuffer ?s0 = m_MVPMatrixBuffer s"
    and calls0: "calls ?s0 = calls s @ [ClearFrameBuffer]"
    by (simp_all add: record_call_def)
  have n: "unat n = length ?objs - (if flagged ?objs = [] then 0 else 1)"
    unfolding n_def using len by (rule total_count)
  then have n62: "unat n < 2 ^ 62" using len by simp
  have inv0: "buffer_inv (m_MVPMatrixBuffer ?s0)" using inv buf0 by simp
  note e = Ensure_buffer[OF inv0 n62, of z]
  have objs1: "Objects ?s1 = ?objs" by (simp add: Ensure_Objects objs0)
  have calls1: "calls ?s1 = calls s @ ClearFrameBuffer # ensure_calls z n (m_MVPMatrixBuffer s)"
    by (simp add: Ensure_calls calls0 buf0)
  have k: "length ?ord \<le> unat n" using order_room[of ?objs] n by simp
  have room: "?ord = [] \<or> (\<exists>xs. m_Buffer (m_MVPMatrixBuffer ?s1) = Some xs
            \<and> unat (0::size_t) + 2 * length ?ord \<le> length xs \<and> length xs < 2 ^ 64)"
  proof (cases "n = 0")
    case True
    then have "length ?ord = 0" using k by simp
    then show ?thesis by simp
  next
    case False
    then obtain xs where xs: "m_Buffer (m_MVPMatrixBuffer ?s1) = Some xs" using e(3) by auto
    then have "length xs = 2 * unat (m_ObjectCount (m_MVPMatrixBuffer ?s1))" "length xs < 2 ^ 64"
      using e(1) by (simp_all add: buffer_inv_def)
    moreover have "unat n \<le> unat (m_ObjectCount (m_MVPMatrixBuffer ?s1))"
      using e(2) by (simp add: word_le_nat_alt)
    ultimately show ?thesis using xs k by simp
  qed
  have valid: "\<forall>p\<in>set ?ord. p < length (Objects ?s1) \<and> (\<exists>c. m_OwningScene (Objects ?s1 ! p) = Some (Some c))"
  proof
    fix p assume "p \<in> set ?ord"
    then have p: "p < length ?objs" "\<not> IsSkybox (?objs ! p)" by (simp_all add: Batch_order_set)
    then have "\<exists>c. m_OwningScene (?objs ! p) = Some (Some c)"
      using att by (auto simp: attached_def)
    then show "p < length (Objects ?s1) \<and> (\<exists>c. m_OwningScene (Objects ?s1 ! p) = Some (Some c))"
      using p objs1 by simp
  qed
  from ProcessBatch_attached[OF Batch_order_distinct valid room, of g]
  obtain s2 where r2: "ProcessBatch g ?ord ?s1 0 = Returns s2 (0 + 2 * of_nat (length ?ord))"
    and calls2: "calls s2 = calls ?s1 @ process_calls (Objects ?s1) ?ord 0"
    and len2: "length (Objects s2) = length (Objects ?s1)"
    and objs2: "\<forall>q<length (Objects ?s1). Objects s2 ! q =
            (if q \<in> set ?ord then processed g (Objects ?s1 ! q) else Objects ?s1 ! q)"
    and cnt2: "m_ObjectCount (m_MVPMatrixBuffer s2) = m_ObjectCount (m_MVPMatrixBuffer ?s1)"
    and buf2: "map_option length (m_Buffer (m_MVPMatrixBuffer s2)) = map_option length (m_Buffer (m_MVPMatrixBuffer ?s1))"
    by blast
  let ?s3 = "RenderBatches ?B (record_call UploadMVPDataToGPU s2)"
  let ?s' = "RenderSkybox ?S ?s3"
  have upd: "UpdateMVPInstances g z ?B (?S \<noteq> None) ?s0 = Returns (record_call UploadMVPDataToGPU s2) ()"
    unfolding UpdateMVPInstances_def Let_def objs0 n_def[symmetric] ProcessBatches_order r2 by simp
  have R: "Render g z s = Returns ?s' ()"
    using upd by (simp add: Render_def Let_def objs0)
  have objs3: "Objects ?s3 = Objects s2" and buf3: "m_MVPMatrixBuffer ?s3 = m_MVPMatrixBuffer s2"
    and calls3: "calls ?s3 = calls s2 @ UploadMVPDataToGPU # draw_calls ?B"
    by (simp_all add: RenderBatches_eq record_call_def)
  have sky_same: "Objects s2 ! p = ?objs ! p" and sky_len: "p < length ?objs" if "?S = Some p" for p
  proof -
    show pl: "p < length ?objs" using that by (rule Batch_skybox_Some)
    have "IsSkybox (?objs ! p)" using that by (rule Batch_skybox_Some)
    then have "p \<notin> set ?ord" by (simp add: Batch_order_set)
    then show "Objects s2 ! p = ?objs ! p" using objs2 pl objs1 by simp
  qed
  have sc: "skybox_calls (Objects ?s3) ?S = skybox_calls ?objs ?S"
    using sky_same by (cases ?S) (simp_all add: skybox_calls_def objs3)
  have C: "calls ?s' = calls s @ ClearFrameBuffer # ensure_calls z n (m_MVPMatrixBuffer s)
            @ process_calls ?objs ?ord 0 @ UploadMVPDataToGPU # draw_calls ?B @ skybox_calls ?objs ?S"
    unfolding RenderSkybox_calls sc calls3 calls2 calls1 objs1 by simp
  have L: "length (Objects ?s') = length ?objs"
    by (cases ?S) (simp_all add: RenderSkybox_Objects objs3 len2 objs1)
  have O: "\<forall>q<length ?objs. Objects ?s' ! q = frame_object g ?objs q"
  proof (intro allI impI)
    fix q assume q: "q < length ?objs"
    then have q2: "Objects s2 ! q = (if q \<in> set ?ord then processed g (?objs ! q) else ?objs ! q)"
      and ql: "q < length (Objects s2)"
      using objs2 objs1 len2 by simp_all
    have mem: "q \<in> set ?ord \<longleftrightarrow> \<not> IsSkybox (?objs ! q)" using q by (simp add: Batch_order_set)
    show "Objects ?s' ! q = frame_object g ?objs q"
    proof (cases ?S)
      case None
      then show ?thesis using q2 mem by (simp add: RenderSkybox_Objects objs3 frame_object_def)
    next
      case (Some p)
      have ps: "IsSkybox (?objs ! p)" using Some by (rule Batch_skybox_Some)
      show ?thesis
      proof (cases "q = p")
        case True
        then show ?thesis
          using Some ps sky_same[OF Some] ql
          by (simp add: RenderSkybox_Objects objs3 frame_object_def)
      next
        case False
        then show ?thesis
          using Some q2 mem by (simp add: RenderSkybox_Objects objs3 frame_object_def)
      qed
    qed
  qed
  have bs: "m_MVPMatrixBuffer ?s' = m_MVPMatrixBuffer s2"
    by (simp add: RenderSkybox_buffer buf3)
  have I: "buffer_inv (m_MVPMatrixBuffer ?s')"
    using e(1) buffer_inv_cong[OF cnt2 buf2] bs by simp
  have N: "n \<le> m_ObjectCount (m_MVPMatrixBuffer ?s')"
    using e(2) cnt2 bs by simp
  show ?thesis using R C L O I N unfolding n_def by blast
qed

section \<open>Properties of the calls of a frame\<close>

subsection \<open>What a call list stores and draws\<close>

lemma stored_at_append: "stored_at (xs @ ys) = stored_at xs @ stored_at ys"
  by (induction xs rule: stored_at.induct) simp_all

lemma stored_objects_append: "stored_objects (xs @ ys) = stored_objects xs @ stored_objects ys"
  by (induction xs rule: stored_objects.induct) simp_all

lemma drawn_append: "drawn (xs @ ys) = drawn xs @ drawn ys"
  by (induction xs rule: drawn.induct) simp_all

lemma process_calls_stored_objects: "stored_objects (process_calls objs ps i) = ps"
  by (induction ps arbitrary: i) (simp_all add: stored_objects_append init_calls_def)

lemma process_calls_drawn: "drawn (process_calls objs ps i) = []"
  by (induction ps arbitrary: i) (simp_all add: drawn_append init_calls_def)

lemma process_calls_stored_at:
  "stored_at (process_calls objs ps i) = map (\<lambda>k. i + 2 * of_nat k) [0..<length ps]"
proof (induction ps arbitrary: i)
  case Nil
  then show ?case by simp
next
  case (Cons p ps)
  have "stored_at (process_calls objs (p # ps) i) = i # map (\<lambda>k. i + 2 + 2 * of_nat k) [0..<length ps]"
    by (simp add: stored_at_append init_calls_def Cons)
  also have "\<dots> = map (\<lambda>k. i + 2 * of_nat k) [0..<length (p # ps)]"
    by (simp add: upt_0_Suc comp_def algebra_simps del: upt_Suc)
  finally show ?case .
qed

lemma draw_calls_stored: "stored_objects (draw_calls B) = []" "stored_at (draw_calls B) = []"
proof -
  have a: "stored_objects (map (\<lambda>p. ObjectRender p n) ps) = []" for n ps
    by (induction ps) simp_all
  have b: "stored_at (map (\<lambda>p. ObjectRender p n) ps) = []" for n ps
    by (induction ps) simp_all
  show "stored_objects (draw_calls B) = []"
    by (induction B) (simp_all add: draw_calls_def stored_objects_append a)
  show "stored_at (draw_calls B) = []"
    by (induction B) (simp_all add: draw_calls_def stored_at_append b)
qed

lemma draw_calls_drawn:
  "drawn (draw_calls B) = concat (map (\<lambda>e. map (\<lambda>p. (p, of_nat (length (snd e)))) (snd e)) B)"
proof -
  have a: "drawn (map (\<lambda>p. ObjectRender p n) ps) = map (\<lambda>p. (p, n)) ps" for n ps
    by (induction ps) simp_all
  show ?thesis
    by (induction B) (simp_all add: draw_calls_def drawn_append a)
qed

lemma draw_calls_drawn_order: "map fst (drawn (draw_calls B)) = batch_order B"
  by (induction B) (simp_all add: draw_calls_drawn batch_order_def comp_def)

lemma ensure_calls_none:
  "stored_objects (ensure_calls z n b) = []" "stored_at (ensure_calls z n b) = []"
  "drawn (ensure_calls z n b) = []"
  by (simp_all add: ensure_calls_def)

lemma skybox_calls_none:
  "stored_objects (skybox_calls objs S) = []" "stored_at (skybox_calls objs S) = []"
  by (simp_all add: skybox_calls_def split: option.splits)

lemma skybox_calls_drawn:
  "drawn (skybox_calls objs S) = (case S of None \<Rightarrow> [] | Some p \<Rightarrow> [(p, 1)])"
  by (simp add: skybox_calls_def split: option.splits)

lemma Render_frame_since:
  fixes s :: "('f::{zero,one}, 'm) Renderer"
  assumes "length (Objects s) < 2 ^ 62" and "buffer_inv (m_MVPMatrixBuffer s)"
    and "attached (Objects s)"
  shows "\<exists>s'. Render g z s = Returns s' ()
      \<and> calls_since (calls s) s' = ClearFrameBuffer
            # ensure_calls z (of_nat (length (Objects s))
                 - (if snd (BatchSceneObjects (Objects s)) \<noteq> None then 1 else 0)) (m_MVPMatrixBuffer s)
            @ process_calls (Objects s) (batch_order (fst (BatchSceneObjects (Objects s)))) 0
            @ UploadMVPDataToGPU # draw_calls (fst (BatchSceneObjects (Objects s)))
            @ skybox_calls (Objects s) (snd (BatchSceneObjects (Objects s)))
      \<and> length (Objects s') = length (Objects s)
      \<and> (\<forall>q<length (Objects s). Objects s' ! q = frame_object g (Objects s) q)
      \<and> buffer_inv (m_MVPMatrixBuffer s')
      \<and> of_nat (length (Objects s)) - (if snd (BatchSceneObjects (Objects s)) \<noteq> None then 1 else 0)
           \<le> m_ObjectCount (m_MVPMatrixBuffer s')"
proof -
  from Render_frame[OF assms, of g z] obtain s' where
    R: "Render g z s = Returns s' ()"
    and C: "calls s' = calls s @ ClearFrameBuffer
            # ensure_calls z (of_nat (length (Objects s))
                 - (if snd (BatchSceneObjects (Objects s)) \<noteq> None then 1 else 0)) (m_MVPMatrixBuffer s)
            @ process_calls (Objects s) (batch_order (fst (BatchSceneObjects (Objects s)))) 0
            @ UploadMVPDataToGPU # draw_calls (fst (BatchSceneObjects (Objects s)))
            @ skybox_calls (Objects s) (snd (BatchSceneObjects (Objects s)))"
    and rest: "length (Objects s') = length (Objects s)"
      "\<forall>q<length (Objects s). Objects s' ! q = frame_object g (Objects s) q"
      "buffer_inv (m_MVPMatrixBuffer s')"
      "of_nat (length (Objects s)) - (if snd (BatchSceneObjects (Objects s)) \<noteq> None then 1 else 0)
           \<le> m_ObjectCount (m_MVPMatrixBuffer s')"
    by blast
  have "calls_since (calls s) s' = ClearFrameBuffer
            # ensure_calls z (of_nat (length (Objects s))
                 - (if snd (BatchSceneObjects (Objects s)) \<noteq> None then 1 else 0)) (m_MVPMatrixBuffer s)
            @ process_calls (Objects s) (batch_order (fst (BatchSceneObjects (Objects s)))) 0
            @ UploadMVPDataToGPU # draw_calls (fst (BatchSceneObjects (Objects s)))
            @ skybox_calls (Objects s) (snd (BatchSceneObjects (Objects s)))"
    unfolding calls_since_def C by simp
  then show ?thesis using R rest by blast
qed

lemma frame_order:
  fixes s :: "('f::{zero,one}, 'm) Renderer"
  assumes "length (Objects s) < 2 ^ 62" and "buffer_inv (m_MVPMatrixBuffer s)"
    and "attached (Objects s)"
  shows "\<exists>s'. Render g z s = Returns s' ()
      \<and> stored_objects (calls_since (calls s) s') = batch_order (fst (BatchSceneObjects (Objects s)))
      \<and> map fst (drawn (calls_since (calls s) s')) =
          batch_order (fst (BatchSceneObjects (Objects s)))
          @ (case snd (BatchSceneObjects (Objects s)) of None \<Rightarrow> [] | Some p \<Rightarrow> [p])
      \<and> drawn (calls_since (calls s) s') =
          concat (map (\<lambda>e. map (\<lambda>p. (p, of_nat (length (snd e)))) (snd e)) (fst (BatchSceneObjects (Objects s))))
          @ (case snd (BatchSceneObjects (Objects s)) of None \<Rightarrow> [] | Some p \<Rightarrow> [(p, 1)])"
proof -
  from Render_frame_since[OF assms, of g z] obtain s' where
    R: "Render g z s = Returns s' ()"
    and C: "calls_since (calls s) s' = ClearFrameBuffer
            # ensure_calls z (of_nat (length (Objects s))
                 - (if snd (BatchSceneObjects (Objects s)) \<noteq> None then 1 else 0)) (m_MVPMatrixBuffer s)
            @ process_calls (Objects s) (batch_order (fst (BatchSceneObjects (Objects s)))) 0
            @ UploadMVPDataToGPU # draw_calls (fst (BatchSceneObjects (Objects s)))
            @ skybox_calls (Objects s) (snd (BatchSceneObjects (Objects s)))"
    by blast
  have 1: "stored_objects (calls_since (calls s) s') = batch_order (fst (BatchSceneObjects (Objects s)))"
    unfolding C
    by (simp add: stored_objects_append process_calls_stored_objects draw_calls_stored
        ensure_calls_none skybox_calls_none)
  have 3: "drawn (calls_since (calls s) s') =
          concat (map (\<lambda>e. map (\<lambda>p. (p, of_nat (length (snd e)))) (snd e)) (fst (BatchSceneObjects (Objects s))))
          @ (case snd (BatchSceneObjects (Objects s)) of None \<Rightarrow> [] | Some p \<Rightarrow> [(p, 1)])"
    unfolding C
    by (simp add: drawn_append process_calls_drawn draw_calls_drawn ensure_calls_none skybox_calls_drawn)
  have 2: "map fst (drawn (calls_since (calls s) s')) =
          batch_order (fst (BatchSceneObjects (Objects s)))
          @ (case snd (BatchSceneObjects (Objects s)) of None \<Rightarrow> [] | Some p \<Rightarrow> [p])"
    unfolding 3 using draw_calls_drawn_order[of "fst (BatchSceneObjects (Objects s))"]
    by (simp add: draw_calls_drawn split: option.splits)
  show ?thesis using R 1 2 3 by blast
qed

lemma example_batches: "BatchSceneObjects example_scene = ([(5, [2]), (7, [0, 3])], Some 1)"
  by (simp add: example_scene_def BatchSceneObjects_def plain_object_def skybox_object_def
      SceneObject_ctor_def SetScene_def)

lemma example_attached: "attached example_scene"
  by (simp add: attached_def example_scene_def plain_object_def skybox_object_def
      SceneObject_ctor_def SetScene_def)

lemma ctor_buffer_inv: "buffer_inv (m_MVPMatrixBuffer (Renderer_ctor objs))"
  by (simp add: Renderer_ctor_def MatrixBuffer_default_def buffer_inv_def)



subsection \<open>The initialisation passes in a call list\<close>

lemma process_calls_first_pass:
  "PerformFirstPass p \<in> set (process_calls objs ps i) \<longleftrightarrow> p \<in> set ps \<and> m_New (objs ! p)"
  by (induction ps arbitrary: i) (auto simp: init_calls_def)

lemma process_calls_second_pass:
  "PerformSecondPass p \<in> set (process_calls objs ps i) \<longleftrightarrow> p \<in> set ps \<and> m_New (objs ! p)"
  by (induction ps arbitrary: i) (auto simp: init_calls_def)

lemma draw_calls_no_pass:
  "PerformFirstPass p \<notin> set (draw_calls B)" "PerformSecondPass p \<notin> set (draw_calls B)"
  by (auto simp: draw_calls_def)

lemma ensure_calls_no_pass:
  "PerformFirstPass p \<notin> set (ensure_calls z n b)" "PerformSecondPass p \<notin> set (ensure_calls z n b)"
  by (simp_all add: ensure_calls_def)

lemma skybox_calls_second_pass: "PerformSecondPass p \<notin> set (skybox_calls objs S)"
  by (simp add: skybox_calls_def split: option.splits)

lemma skybox_calls_first_pass:
  "PerformFirstPass p \<in> set (skybox_calls objs S) \<longleftrightarrow> S = Some p \<and> m_New (objs ! p)"
  by (auto simp: skybox_calls_def split: option.splits)

subsection \<open>The skybox\<close>

text \<open>
  C6 (amended). In every frame in which a background object exists (the scene below the
  size limit of a vector, the store in its state between frames, every unflagged object
  attached to a scene with a camera): if the background object is new, only
  \<^verbatim>\<open>PerformFirstPass\<close> runs for it and its flag is cleared, with no bind of the matrix
  buffer and no second pass; it is drawn with the instance count 1 by the last call of the
  frame, after every draw of the batches; and it is not new afterwards.
\<close>

theorem skybox_first_pass_only:
  fixes s :: "('f::{zero,one}, 'm) Renderer"
  assumes "length (Objects s) < 2 ^ 62" and "buffer_inv (m_MVPMatrixBuffer s)"
    and "attached (Objects s)"
    and S: "snd (BatchSceneObjects (Objects s)) = Some p"
  shows "\<exists>s' pre. Render g z s = Returns s' ()
      \<and> calls_since (calls s) s' =
           pre @ (if m_New (Objects s ! p) then [PerformFirstPass p, SetNew p False] else [])
               @ [ObjectRender p 1]
      \<and> PerformFirstPass p \<notin> set pre
      \<and> PerformSecondPass p \<notin> set (calls_since (calls s) s')
      \<and> drawn (calls_since (calls s) s') = drawn pre @ [(p, 1)]
      \<and> p \<notin> fst ` set (drawn pre)
      \<and> \<not> m_New (Objects s' ! p)"
proof -
  let ?objs = "Objects s"
  let ?B = "fst (BatchSceneObjects ?objs)"
  let ?pre = "ClearFrameBuffer
            # ensure_calls z (of_nat (length ?objs)
                 - (if snd (BatchSceneObjects ?objs) \<noteq> None then 1 else 0)) (m_MVPMatrixBuffer s)
            @ process_calls ?objs (batch_order ?B) 0
            @ UploadMVPDataToGPU # draw_calls ?B"
  let ?sky = "(if m_New (?objs ! p) then [PerformFirstPass p, SetNew p False] else []) @ [ObjectRender p 1]"
  from Render_frame_since[OF assms(1-3), of g z] obtain s' where
    R: "Render g z s = Returns s' ()"
    and C: "calls_since (calls s) s' = ?pre @ skybox_calls ?objs (snd (BatchSceneObjects ?objs))"
    and O: "\<forall>q<length ?objs. Objects s' ! q = frame_object g ?objs q"
    by auto
  have pl: "p < length ?objs" and pf: "IsSkybox (?objs ! p)"
    using S by (rule Batch_skybox_Some)+
  have notin: "p \<notin> set (batch_order ?B)" using pf by (simp add: Batch_order_set)
  have sk: "skybox_calls ?objs (snd (BatchSceneObjects ?objs)) = ?sky"
    by (simp add: S skybox_calls_def)
  have 1: "calls_since (calls s) s' = ?pre @ ?sky" using C sk by simp
  have 2: "PerformFirstPass p \<notin> set ?pre"
    using notin by (simp add: process_calls_first_pass draw_calls_no_pass ensure_calls_no_pass)
  have 3: "PerformSecondPass p \<notin> set (calls_since (calls s) s')"
    unfolding 1 using notin
    by (simp add: process_calls_second_pass draw_calls_no_pass ensure_calls_no_pass)
  have dp: "drawn ?pre = drawn (draw_calls ?B)"
    by (simp add: drawn_append process_calls_drawn ensure_calls_none)
  have 4: "drawn (calls_since (calls s) s') = drawn ?pre @ [(p, 1)]"
    unfolding 1 by (simp add: drawn_append)
  have "fst ` set (drawn ?pre) = set (batch_order ?B)"
    unfolding dp using draw_calls_drawn_order[of ?B] by (metis set_map)
  then have 5: "p \<notin> fst ` set (drawn ?pre)" using notin by simp
  have 6: "\<not> m_New (Objects s' ! p)"
    using O pl pf S by (simp add: frame_object_def)
  show ?thesis using R 1 2 3 4 5 6 by blast
qed

lemma skybox_only_attached: "attached [skybox_object h]"
  by (simp add: attached_def skybox_object_def SceneObject_ctor_def SetScene_def)

lemma skybox_only_batches: "BatchSceneObjects [skybox_object h] = ([], Some 0)"
  by (simp add: BatchSceneObjects_def skybox_object_def SceneObject_ctor_def SetScene_def)

text \<open>
  C6 as stated fails: in the first frame of a scene that holds only a new skybox, the
  first pass runs and the flag is cleared, and no second pass runs for the skybox.
\<close>

theorem skybox_init_counterexample:
  "\<exists>s'. Render expr_glm Zero (Renderer_ctor [skybox_object 3]) = Returns s' ()
     \<and> calls s' = [ClearFrameBuffer, BindMVPBuffer, glBufferData 0, UploadMVPDataToGPU,
                    PerformFirstPass 0, SetNew 0 False, ObjectRender 0 1]
     \<and> PerformSecondPass 0 \<notin> set (calls s')"
proof -
  have h: "length (Objects (Renderer_ctor [skybox_object 3])) < 2 ^ 62"
    "buffer_inv (m_MVPMatrixBuffer (Renderer_ctor [skybox_object 3]))"
    "attached (Objects (Renderer_ctor [skybox_object 3]))"
    by (simp_all add: ctor_buffer_inv) (simp_all add: Renderer_ctor_def skybox_only_attached)
  from Render_frame_since[OF h, of expr_glm Zero] obtain s' where
    R: "Render expr_glm Zero (Renderer_ctor [skybox_object 3]) = Returns s' ()"
    and C: "calls_since (calls (Renderer_ctor [skybox_object 3])) s' = ClearFrameBuffer
            # ensure_calls Zero (of_nat (length (Objects (Renderer_ctor [skybox_object 3])))
                 - (if snd (BatchSceneObjects (Objects (Renderer_ctor [skybox_object 3]))) \<noteq> None then 1 else 0))
                (m_MVPMatrixBuffer (Renderer_ctor [skybox_object 3]))
            @ process_calls (Objects (Renderer_ctor [skybox_object 3]))
                (batch_order (fst (BatchSceneObjects (Objects (Renderer_ctor [skybox_object 3]))))) 0
            @ UploadMVPDataToGPU # draw_calls (fst (BatchSceneObjects (Objects (Renderer_ctor [skybox_object 3]))))
            @ skybox_calls (Objects (Renderer_ctor [skybox_object 3]))
                (snd (BatchSceneObjects (Objects (Renderer_ctor [skybox_object 3]))))"
    by blast
  have o: "Objects (Renderer_ctor [skybox_object 3]) = [skybox_object 3]"
    "calls (Renderer_ctor [skybox_object 3]) = []"
    "m_MVPMatrixBuffer (Renderer_ctor [skybox_object 3]) = MatrixBuffer_default"
    by (simp_all add: Renderer_ctor_def)
  have n: "m_New (skybox_object 3)"
    by (simp add: skybox_object_def SceneObject_ctor_def SetScene_def)
  have "calls s' = [ClearFrameBuffer, BindMVPBuffer, glBufferData 0, UploadMVPDataToGPU,
                    PerformFirstPass 0, SetNew 0 False, ObjectRender 0 1]"
    using C unfolding o skybox_only_batches
    by (simp add: calls_since_def batch_order_def draw_calls_def skybox_calls_def n
        ensure_calls_def MatrixBuffer_default_def Resize_def GetBufferSize_def)
  then show ?thesis using R by simp
qed

theorem skybox_first_pass_only_witness:
  "length example_scene < 2 ^ 62 \<and> attached example_scene
   \<and> snd (BatchSceneObjects example_scene) = Some 1
   \<and> (\<exists>s' pre. Render expr_glm Zero (Renderer_ctor example_scene) = Returns s' ()
        \<and> calls s' = pre @ [PerformFirstPass 1, SetNew 1 False, ObjectRender 1 1]
        \<and> PerformSecondPass 1 \<notin> set (calls s')
        \<and> drawn (calls s') = drawn pre @ [(1, 1)]
        \<and> \<not> m_New (Objects s' ! 1))"
proof -
  have o: "Objects (Renderer_ctor example_scene) = example_scene"
    "calls (Renderer_ctor example_scene) = []"
    by (simp_all add: Renderer_ctor_def)
  have h: "length (Objects (Renderer_ctor example_scene)) < 2 ^ 62"
    "buffer_inv (m_MVPMatrixBuffer (Renderer_ctor example_scene))"
    "attached (Objects (Renderer_ctor example_scene))"
    "snd (BatchSceneObjects (Objects (Renderer_ctor example_scene))) = Some 1"
    unfolding o by (simp_all add: ctor_buffer_inv example_attached example_batches)
       (simp add: example_scene_def)
  have n: "m_New (example_scene ! 1)"
    by (simp add: example_scene_def skybox_object_def SceneObject_ctor_def SetScene_def)
  have c: "calls_since [] s' = calls s'" for s' :: "(int, mat4) Renderer"
    by (simp add: calls_since_def)
  from skybox_first_pass_only[OF h, of expr_glm Zero]
  have "\<exists>s' pre. Render expr_glm Zero (Renderer_ctor example_scene) = Returns s' ()
        \<and> calls s' = pre @ [PerformFirstPass 1, SetNew 1 False, ObjectRender 1 1]
        \<and> PerformSecondPass 1 \<notin> set (calls s')
        \<and> drawn (calls s') = drawn pre @ [(1, 1)]
        \<and> \<not> m_New (Objects s' ! 1)"
    unfolding o c using n by auto
  then show ?thesis using h(1,3,4) unfolding o by simp
qed

text \<open>
  C1. Not met by the code: with two new objects of one hash, the
  frame issues two instanced draws, one on each object, both with the instance count 2.
\<close>

theorem same_hash_pair_draws:
  "\<exists>s'. Render expr_glm Zero (Renderer_ctor [plain_object 7, plain_object 7]) = Returns s' ()
     \<and> drawn (calls s') = [(0, 2), (1, 2)]
     \<and> \<not> m_New (Objects s' ! 0) \<and> \<not> m_New (Objects s' ! 1)"
proof -
  let ?objs = "[plain_object 7, plain_object 7]"
  have o: "Objects (Renderer_ctor ?objs) = ?objs" "calls (Renderer_ctor ?objs) = []"
    by (simp_all add: Renderer_ctor_def)
  have b: "BatchSceneObjects ?objs = ([(7, [0, 1])], None)"
    by (simp add: BatchSceneObjects_def plain_object_def SceneObject_ctor_def SetScene_def)
  have h: "length (Objects (Renderer_ctor ?objs)) < 2 ^ 62"
    "buffer_inv (m_MVPMatrixBuffer (Renderer_ctor ?objs))"
    "attached (Objects (Renderer_ctor ?objs))"
    unfolding o by (simp_all add: ctor_buffer_inv)
      (simp add: attached_def plain_object_def SceneObject_ctor_def SetScene_def)
  from Render_frame_since[OF h, of expr_glm Zero] obtain s' where
    R: "Render expr_glm Zero (Renderer_ctor ?objs) = Returns s' ()"
    and O: "\<forall>q<length (Objects (Renderer_ctor ?objs)). Objects s' ! q = frame_object expr_glm (Objects (Renderer_ctor ?objs)) q"
    by blast
  from frame_order[OF h, of expr_glm Zero] R
  have D: "drawn (calls_since (calls (Renderer_ctor ?objs)) s') =
          concat (map (\<lambda>e. map (\<lambda>p. (p, of_nat (length (snd e)))) (snd e)) (fst (BatchSceneObjects (Objects (Renderer_ctor ?objs)))))
          @ (case snd (BatchSceneObjects (Objects (Renderer_ctor ?objs))) of None \<Rightarrow> [] | Some p \<Rightarrow> [(p, 1)])"
    by auto
  have 1: "drawn (calls s') = [(0, 2), (1, 2)]"
    using D unfolding o b by (simp add: calls_since_def)
  have ns: "\<not> IsSkybox (plain_object 7)"
    by (simp add: plain_object_def SceneObject_ctor_def SetScene_def)
  have 2: "\<not> m_New (Objects s' ! 0)" "\<not> m_New (Objects s' ! 1)"
    using O unfolding o by (simp_all add: frame_object_def ns processed_def)
  show ?thesis using R 1 2 by blast
qed

section \<open>The life of an object and the bounds of the writes\<close>

subsection \<open>The objects after a frame\<close>

lemma frame_object_fields:
  "m_OwningScene (frame_object g objs q) = m_OwningScene (objs ! q)"
  "IsSkybox (frame_object g objs q) = IsSkybox (objs ! q)"
  "GetHash (frame_object g objs q) = GetHash (objs ! q)"
  by (simp_all add: frame_object_def processed_def)

lemma frame_object_not_New:
  "\<not> IsSkybox (objs ! q) \<Longrightarrow> \<not> m_New (frame_object g objs q)"
  "\<not> m_New (objs ! q) \<Longrightarrow> \<not> m_New (frame_object g objs q)"
  by (simp_all add: frame_object_def processed_def)

lemma attached_nth:
  "attached objs \<longleftrightarrow> (\<forall>q<length objs. IsSkybox (objs ! q) \<or> (\<exists>c. m_OwningScene (objs ! q) = Some (Some c)))"
  by (simp add: attached_def all_set_conv_all_nth)

lemma frame_attached:
  assumes "attached objs" and "length objs' = length objs"
    and "\<forall>q<length objs. objs' ! q = frame_object g objs q"
  shows "attached objs'"
  using assms by (simp add: attached_nth frame_object_fields)

subsection \<open>The initialisation of one object in the matrix loop\<close>

lemma process_calls_split:
  assumes "distinct ps" and "i \<in> set ps" and "m_New (objs ! i)"
  shows "\<exists>pre post. process_calls objs ps k = pre @ init_calls i @ post
      \<and> PerformFirstPass i \<notin> set pre \<and> PerformSecondPass i \<notin> set pre
      \<and> PerformFirstPass i \<notin> set post \<and> PerformSecondPass i \<notin> set post"
  using assms(1,2)
proof (induction ps arbitrary: k)
  case Nil
  then show ?case by simp
next
  case (Cons p ps)
  show ?case
  proof (cases "p = i")
    case True
    then have notin: "i \<notin> set ps" using Cons.prems(1) by simp
    let ?post = "StoreMatrices i k # process_calls objs ps (k + 2)"
    have "process_calls objs (p # ps) k = [] @ init_calls i @ ?post"
      using True assms(3) by simp
    moreover have "PerformFirstPass i \<notin> set ?post" "PerformSecondPass i \<notin> set ?post"
      using notin by (simp_all add: process_calls_first_pass process_calls_second_pass)
    ultimately show ?thesis by (metis empty_iff empty_set)
  next
    case False
    then have "distinct ps" "i \<in> set ps" using Cons.prems by simp_all
    from Cons.IH[OF this, of "k + 2"] obtain pre post where
      e: "process_calls objs ps (k + 2) = pre @ init_calls i @ post"
      and n: "PerformFirstPass i \<notin> set pre" "PerformSecondPass i \<notin> set pre"
        "PerformFirstPass i \<notin> set post" "PerformSecondPass i \<notin> set post"
      by blast
    let ?pre = "(if m_New (objs ! p) then init_calls p else []) @ StoreMatrices p k # pre"
    have "process_calls objs (p # ps) k = ?pre @ init_calls i @ post"
      using e by simp
    moreover have "PerformFirstPass i \<notin> set ?pre" "PerformSecondPass i \<notin> set ?pre"
      using n False by (simp_all add: init_calls_def)
    ultimately show ?thesis using n(3,4) by blast
  qed
qed

subsection \<open>A frame, seen from one ordinary object\<close>

lemma frame_new:
  fixes s :: "('f::{zero,one}, 'm) Renderer"
  assumes wf: "length (Objects s) < 2 ^ 62" "buffer_inv (m_MVPMatrixBuffer s)" "attached (Objects s)"
    and i: "i < length (Objects s)" "\<not> IsSkybox (Objects s ! i)" and new: "m_New (Objects s ! i)"
  shows "\<exists>s' pre post. Render g z s = Returns s' ()
      \<and> calls s' = calls s @ pre @ init_calls i @ post
      \<and> PerformFirstPass i \<notin> set pre \<and> PerformSecondPass i \<notin> set pre
      \<and> PerformFirstPass i \<notin> set post \<and> PerformSecondPass i \<notin> set post
      \<and> \<not> m_New (Objects s' ! i)
      \<and> length (Objects s') = length (Objects s) \<and> \<not> IsSkybox (Objects s' ! i)
      \<and> buffer_inv (m_MVPMatrixBuffer s') \<and> attached (Objects s')"
proof -
  let ?objs = "Objects s"
  let ?B = "fst (BatchSceneObjects ?objs)"
  let ?S = "snd (BatchSceneObjects ?objs)"
  let ?head = "ClearFrameBuffer
            # ensure_calls z (of_nat (length ?objs) - (if ?S \<noteq> None then 1 else 0)) (m_MVPMatrixBuffer s)"
  let ?tail = "UploadMVPDataToGPU # draw_calls ?B @ skybox_calls ?objs ?S"
  from Render_frame[OF wf, of g z] obtain s' where
    R: "Render g z s = Returns s' ()"
    and C: "calls s' = calls s @ ?head @ process_calls ?objs (batch_order ?B) 0 @ ?tail"
    and L: "length (Objects s') = length ?objs"
    and O: "\<forall>q<length ?objs. Objects s' ! q = frame_object g ?objs q"
    and I: "buffer_inv (m_MVPMatrixBuffer s')"
    by auto
  have mem: "i \<in> set (batch_order ?B)" using i by (simp add: Batch_order_set)
  from process_calls_split[OF Batch_order_distinct mem new, of 0] obtain pre post where
    e: "process_calls ?objs (batch_order ?B) 0 = pre @ init_calls i @ post"
    and n: "PerformFirstPass i \<notin> set pre" "PerformSecondPass i \<notin> set pre"
      "PerformFirstPass i \<notin> set post" "PerformSecondPass i \<notin> set post"
    by blast
  have sky: "PerformFirstPass i \<notin> set (skybox_calls ?objs ?S)"
  proof
    assume "PerformFirstPass i \<in> set (skybox_calls ?objs ?S)"
    then have "?S = Some i" by (simp add: skybox_calls_first_pass)
    then have "IsSkybox (?objs ! i)" by (rule Batch_skybox_Some)
    then show False using i by simp
  qed
  have 1: "calls s' = calls s @ (?head @ pre) @ init_calls i @ (post @ ?tail)"
    unfolding C e by simp
  have 2: "PerformFirstPass i \<notin> set (?head @ pre)" "PerformSecondPass i \<notin> set (?head @ pre)"
    using n by (simp_all add: ensure_calls_no_pass)
  have 3: "PerformFirstPass i \<notin> set (post @ ?tail)" "PerformSecondPass i \<notin> set (post @ ?tail)"
    using n sky by (simp_all add: draw_calls_no_pass skybox_calls_second_pass)
  have 4: "\<not> m_New (Objects s' ! i)" "\<not> IsSkybox (Objects s' ! i)"
    using O i by (simp_all add: frame_object_not_New frame_object_fields)
  have 5: "attached (Objects s')" using wf(3) L O by (rule frame_attached)
  show ?thesis using R 1 2 3 4 5 L I by blast
qed

lemma frame_ready:
  fixes s :: "('f::{zero,one}, 'm) Renderer"
  assumes wf: "length (Objects s) < 2 ^ 62" "buffer_inv (m_MVPMatrixBuffer s)" "attached (Objects s)"
    and i: "i < length (Objects s)" "\<not> IsSkybox (Objects s ! i)" and old: "\<not> m_New (Objects s ! i)"
  shows "\<exists>s' later. Render g z s = Returns s' ()
      \<and> calls s' = calls s @ later
      \<and> PerformFirstPass i \<notin> set later \<and> PerformSecondPass i \<notin> set later
      \<and> \<not> m_New (Objects s' ! i)
      \<and> length (Objects s') = length (Objects s) \<and> \<not> IsSkybox (Objects s' ! i)
      \<and> buffer_inv (m_MVPMatrixBuffer s') \<and> attached (Objects s')"
proof -
  let ?objs = "Objects s"
  let ?B = "fst (BatchSceneObjects ?objs)"
  let ?S = "snd (BatchSceneObjects ?objs)"
  let ?later = "ClearFrameBuffer
            # ensure_calls z (of_nat (length ?objs) - (if ?S \<noteq> None then 1 else 0)) (m_MVPMatrixBuffer s)
            @ process_calls ?objs (batch_order ?B) 0
            @ UploadMVPDataToGPU # draw_calls ?B @ skybox_calls ?objs ?S"
  from Render_frame[OF wf, of g z] obtain s' where
    R: "Render g z s = Returns s' ()"
    and C: "calls s' = calls s @ ?later"
    and L: "length (Objects s') = length ?objs"
    and O: "\<forall>q<length ?objs. Objects s' ! q = frame_object g ?objs q"
    and I: "buffer_inv (m_MVPMatrixBuffer s')"
    by auto
  have 2: "PerformFirstPass i \<notin> set ?later" "PerformSecondPass i \<notin> set ?later"
    using old
    by (simp_all add: ensure_calls_no_pass process_calls_first_pass process_calls_second_pass
        draw_calls_no_pass skybox_calls_second_pass skybox_calls_first_pass)
  have 4: "\<not> m_New (Objects s' ! i)" "\<not> IsSkybox (Objects s' ! i)"
    using O i by (simp_all add: frame_object_not_New frame_object_fields)
  have 5: "attached (Objects s')" using wf(3) L O by (rule frame_attached)
  show ?thesis using R C 2 4 5 L I by blast
qed

lemma Frames_ready:
  fixes s :: "('f::{zero,one}, 'm) Renderer"
  assumes "length (Objects s) < 2 ^ 62" "buffer_inv (m_MVPMatrixBuffer s)" "attached (Objects s)"
    and "i < length (Objects s)" "\<not> IsSkybox (Objects s ! i)" and "\<not> m_New (Objects s ! i)"
  shows "\<exists>s' later. Frames g z n s = Returns s' ()
      \<and> calls s' = calls s @ later
      \<and> PerformFirstPass i \<notin> set later \<and> PerformSecondPass i \<notin> set later
      \<and> \<not> m_New (Objects s' ! i)"
  using assms
proof (induction n arbitrary: s)
  case 0
  then show ?case by simp
next
  case (Suc n)
  from frame_ready[OF Suc.prems, of g z] obtain s1 l1 where
    R: "Render g z s = Returns s1 ()" and C: "calls s1 = calls s @ l1"
    and n1: "PerformFirstPass i \<notin> set l1" "PerformSecondPass i \<notin> set l1"
    and p: "length (Objects s1) < 2 ^ 62" "buffer_inv (m_MVPMatrixBuffer s1)" "attached (Objects s1)"
      "i < length (Objects s1)" "\<not> IsSkybox (Objects s1 ! i)" "\<not> m_New (Objects s1 ! i)"
    using Suc.prems(1,4) by auto
  from Suc.IH[OF p] obtain s2 l2 where
    F: "Frames g z n s1 = Returns s2 ()" and C2: "calls s2 = calls s1 @ l2"
    and n2: "PerformFirstPass i \<notin> set l2" "PerformSecondPass i \<notin> set l2"
    and m: "\<not> m_New (Objects s2 ! i)"
    by blast
  have "Frames g z (Suc n) s = Returns s2 ()" using R F by simp
  moreover have "calls s2 = calls s @ (l1 @ l2)" using C C2 by simp
  moreover have "PerformFirstPass i \<notin> set (l1 @ l2)" "PerformSecondPass i \<notin> set (l1 @ l2)"
    using n1 n2 by simp_all
  ultimately show ?case using m by blast
qed

text \<open>
  C5. For every object that is not flagged as skybox and is new, in a frame of its scene
  (the scene below the size limit of a vector, the store in its state between frames,
  every unflagged object attached to a scene with a camera): the frame returns, and among
  its calls the first pass of the object, the bind of the matrix buffer, the second pass
  of the object and the clearing of its flag follow one another directly, with no other
  first or second pass of the object before or after them; the object is not new
  afterwards; in any number of further frames neither pass runs again and the object stays
  not new. The same holds from any state in which the object is not new: a frame runs
  neither pass for it and leaves it not new.
\<close>

theorem object_initialised_once:
  fixes s :: "('f::{zero,one}, 'm) Renderer"
  assumes "length (Objects s) < 2 ^ 62" and "buffer_inv (m_MVPMatrixBuffer s)"
    and "attached (Objects s)"
    and "i < length (Objects s)" and "\<not> IsSkybox (Objects s ! i)" and "m_New (Objects s ! i)"
  shows "(\<exists>s1 pre post. Render g z s = Returns s1 ()
        \<and> calls s1 = calls s @ pre
             @ [PerformFirstPass i, BindMVPBuffer, PerformSecondPass i, SetNew i False] @ post
        \<and> PerformFirstPass i \<notin> set pre \<and> PerformSecondPass i \<notin> set pre
        \<and> PerformFirstPass i \<notin> set post \<and> PerformSecondPass i \<notin> set post
        \<and> \<not> m_New (Objects s1 ! i)
        \<and> (\<forall>n. \<exists>s2 later. Frames g z n s1 = Returns s2 ()
              \<and> calls s2 = calls s1 @ later
              \<and> PerformFirstPass i \<notin> set later \<and> PerformSecondPass i \<notin> set later
              \<and> \<not> m_New (Objects s2 ! i)))
     \<and> (\<forall>t :: ('f, 'm) Renderer.
           length (Objects t) < 2 ^ 62 \<and> buffer_inv (m_MVPMatrixBuffer t) \<and> attached (Objects t)
           \<and> i < length (Objects t) \<and> \<not> IsSkybox (Objects t ! i) \<and> \<not> m_New (Objects t ! i)
           \<longrightarrow> (\<exists>t' later. Render g z t = Returns t' ()
                 \<and> calls t' = calls t @ later
                 \<and> PerformFirstPass i \<notin> set later \<and> PerformSecondPass i \<notin> set later
                 \<and> \<not> m_New (Objects t' ! i)))"
proof (intro conjI allI impI)
  from frame_new[OF assms, of g z] obtain s1 pre post where
    R: "Render g z s = Returns s1 ()"
    and C: "calls s1 = calls s @ pre @ init_calls i @ post"
    and n: "PerformFirstPass i \<notin> set pre" "PerformSecondPass i \<notin> set pre"
      "PerformFirstPass i \<notin> set post" "PerformSecondPass i \<notin> set post"
    and m: "\<not> m_New (Objects s1 ! i)"
    and p: "length (Objects s1) = length (Objects s)" "\<not> IsSkybox (Objects s1 ! i)"
      "buffer_inv (m_MVPMatrixBuffer s1)" "attached (Objects s1)"
    by blast
  have q: "length (Objects s1) < 2 ^ 62" "i < length (Objects s1)"
    using p(1) assms(1,4) by simp_all
  have later: "\<forall>n. \<exists>s2 later. Frames g z n s1 = Returns s2 ()
              \<and> calls s2 = calls s1 @ later
              \<and> PerformFirstPass i \<notin> set later \<and> PerformSecondPass i \<notin> set later
              \<and> \<not> m_New (Objects s2 ! i)"
    using Frames_ready[OF q(1) p(3) p(4) q(2) p(2) m, of g z] by blast
  have C': "calls s1 = calls s @ pre
             @ [PerformFirstPass i, BindMVPBuffer, PerformSecondPass i, SetNew i False] @ post"
    using C by (simp add: init_calls_def)
  show "\<exists>s1 pre post. Render g z s = Returns s1 ()
        \<and> calls s1 = calls s @ pre
             @ [PerformFirstPass i, BindMVPBuffer, PerformSecondPass i, SetNew i False] @ post
        \<and> PerformFirstPass i \<notin> set pre \<and> PerformSecondPass i \<notin> set pre
        \<and> PerformFirstPass i \<notin> set post \<and> PerformSecondPass i \<notin> set post
        \<and> \<not> m_New (Objects s1 ! i)
        \<and> (\<forall>n. \<exists>s2 later. Frames g z n s1 = Returns s2 ()
              \<and> calls s2 = calls s1 @ later
              \<and> PerformFirstPass i \<notin> set later \<and> PerformSecondPass i \<notin> set later
              \<and> \<not> m_New (Objects s2 ! i))"
    using R C' n m later by blast
next
  fix t :: "('f, 'm) Renderer"
  assume a: "length (Objects t) < 2 ^ 62 \<and> buffer_inv (m_MVPMatrixBuffer t) \<and> attached (Objects t)
           \<and> i < length (Objects t) \<and> \<not> IsSkybox (Objects t ! i) \<and> \<not> m_New (Objects t ! i)"
  then have h: "length (Objects t) < 2 ^ 62" "buffer_inv (m_MVPMatrixBuffer t)" "attached (Objects t)"
      "i < length (Objects t)" "\<not> IsSkybox (Objects t ! i)" "\<not> m_New (Objects t ! i)"
    by simp_all
  from frame_ready[OF h, of g z]
  show "\<exists>t' later. Render g z t = Returns t' ()
                 \<and> calls t' = calls t @ later
                 \<and> PerformFirstPass i \<notin> set later \<and> PerformSecondPass i \<notin> set later
                 \<and> \<not> m_New (Objects t' ! i)"
    by blast
qed

theorem object_initialised_once_witness:
  "length example_scene < 2 ^ 62 \<and> attached example_scene
   \<and> \<not> IsSkybox (example_scene ! 0) \<and> m_New (example_scene ! 0)
   \<and> (\<exists>s1 pre post. Render expr_glm Zero (Renderer_ctor example_scene) = Returns s1 ()
        \<and> calls s1 = pre @ [PerformFirstPass 0, BindMVPBuffer, PerformSecondPass 0, SetNew 0 False] @ post
        \<and> PerformFirstPass 0 \<notin> set pre \<and> PerformSecondPass 0 \<notin> set pre
        \<and> PerformFirstPass 0 \<notin> set post \<and> PerformSecondPass 0 \<notin> set post
        \<and> \<not> m_New (Objects s1 ! 0)
        \<and> (\<exists>s2 later. Frames expr_glm Zero 3 s1 = Returns s2 ()
              \<and> calls s2 = calls s1 @ later
              \<and> PerformFirstPass 0 \<notin> set later \<and> PerformSecondPass 0 \<notin> set later
              \<and> \<not> m_New (Objects s2 ! 0)))"
proof -
  have o: "Objects (Renderer_ctor example_scene) = example_scene"
    "calls (Renderer_ctor example_scene) = []"
    by (simp_all add: Renderer_ctor_def)
  have e: "\<not> IsSkybox (example_scene ! 0)" "m_New (example_scene ! 0)" "0 < length example_scene"
    "length example_scene < 2 ^ 62"
    by (simp_all add: example_scene_def plain_object_def SceneObject_ctor_def SetScene_def)
  have h: "length (Objects (Renderer_ctor example_scene)) < 2 ^ 62"
    "buffer_inv (m_MVPMatrixBuffer (Renderer_ctor example_scene))"
    "attached (Objects (Renderer_ctor example_scene))"
    "0 < length (Objects (Renderer_ctor example_scene))"
    "\<not> IsSkybox (Objects (Renderer_ctor example_scene) ! 0)"
    "m_New (Objects (Renderer_ctor example_scene) ! 0)"
    unfolding o using e by (simp_all add: ctor_buffer_inv example_attached)
  from object_initialised_once[OF h, of expr_glm Zero, THEN conjunct1]
  obtain s1 pre post where
    R: "Render expr_glm Zero (Renderer_ctor example_scene) = Returns s1 ()"
    and C: "calls s1 = calls (Renderer_ctor example_scene) @ pre
             @ [PerformFirstPass 0, BindMVPBuffer, PerformSecondPass 0, SetNew 0 False] @ post"
    and n: "PerformFirstPass 0 \<notin> set pre" "PerformSecondPass 0 \<notin> set pre"
      "PerformFirstPass 0 \<notin> set post" "PerformSecondPass 0 \<notin> set post"
      "\<not> m_New (Objects s1 ! 0)"
    and l: "\<forall>n. \<exists>s2 later. Frames expr_glm Zero n s1 = Returns s2 ()
              \<and> calls s2 = calls s1 @ later
              \<and> PerformFirstPass 0 \<notin> set later \<and> PerformSecondPass 0 \<notin> set later
              \<and> \<not> m_New (Objects s2 ! 0)"
    by blast
  have C': "calls s1 = pre @ [PerformFirstPass 0, BindMVPBuffer, PerformSecondPass 0, SetNew 0 False] @ post"
    using C unfolding o by simp
  have "\<exists>s1 pre post. Render expr_glm Zero (Renderer_ctor example_scene) = Returns s1 ()
        \<and> calls s1 = pre @ [PerformFirstPass 0, BindMVPBuffer, PerformSecondPass 0, SetNew 0 False] @ post
        \<and> PerformFirstPass 0 \<notin> set pre \<and> PerformSecondPass 0 \<notin> set pre
        \<and> PerformFirstPass 0 \<notin> set post \<and> PerformSecondPass 0 \<notin> set post
        \<and> \<not> m_New (Objects s1 ! 0)
        \<and> (\<exists>s2 later. Frames expr_glm Zero 3 s1 = Returns s2 ()
              \<and> calls s2 = calls s1 @ later
              \<and> PerformFirstPass 0 \<notin> set later \<and> PerformSecondPass 0 \<notin> set later
              \<and> \<not> m_New (Objects s2 ! 0))"
    using R C' n l[rule_format, of 3] by blast
  then show ?thesis using e example_attached by simp
qed

subsection \<open>The writes of the matrix loop, for any scene\<close>

lemma unattached_outcome:
  "(\<exists>t out. ComputeModelViewProjection g (Some sc) tr = Returns t out)
   \<or> ComputeModelViewProjection g (Some sc) tr = Undefined NullSceneDereference
   \<or> ComputeModelViewProjection g (Some sc) tr = Undefined NullCameraDereference"
  by (simp add: ComputeModelViewProjection_def ApplyCachedModelMatrix_def split: option.splits)

lemma ProcessObject_outcome:
  assumes b: "m_Buffer (m_MVPMatrixBuffer s) = Some xs"
    and r: "unat Index + 2 \<le> length xs" "length xs < 2 ^ 64"
  shows "(\<exists>s' X. ProcessObjectForMVP g p s Index = Returns s' (Index + 2)
          \<and> calls s' = calls s @ X \<and> stored_at X = [Index]
          \<and> m_ObjectCount (m_MVPMatrixBuffer s') = m_ObjectCount (m_MVPMatrixBuffer s)
          \<and> (\<exists>xs'. m_Buffer (m_MVPMatrixBuffer s') = Some xs' \<and> length xs' = length xs))
       \<or> ProcessObjectForMVP g p s Index = Undefined NullSceneDereference
       \<or> ProcessObjectForMVP g p s Index = Undefined NullCameraDereference"
proof -
  define s1 where "s1 = (if m_New (Objects s ! p)
                then Object_SetNew p False
                       (record_call (PerformSecondPass p)
                         (record_call BindMVPBuffer
                           (record_call (PerformFirstPass p) s)))
                else s)"
  define ob where "ob = Objects s1 ! p"
  have u: "unat (Index + 1) = unat Index + 1" using r by (rule unat_Suc_small)
  have buf1: "m_MVPMatrixBuffer s1 = m_MVPMatrixBuffer s"
    by (simp add: s1_def Object_SetNew_def record_call_def)
  have calls1: "calls s1 = calls s @ (if m_New (Objects s ! p) then init_calls p else [])"
    by (simp add: s1_def Object_SetNew_def record_call_def init_calls_def)
  have chk: "unat Index < length xs \<and> unat (Index + 1) < length xs" using r u by simp
  have P: "ProcessObjectForMVP g p s Index =
      (case ComputeModelViewProjection g (Some (m_OwningScene ob)) (m_Transform ob) of
           Throws t e \<Rightarrow> Throws (s1\<lparr>Objects := (Objects s1)[p := ob\<lparr>m_Transform := t\<rparr>]\<rparr>) e
         | Undefined u \<Rightarrow> Undefined u
         | Returns t out \<Rightarrow>
             Returns
                         (record_call (StoreMatrices p Index)
                           (s1\<lparr>Objects := (Objects s1)[p := ob\<lparr>m_Transform := t\<rparr>],
                               m_MVPMatrixBuffer := (m_MVPMatrixBuffer s1)
                                 \<lparr>m_Buffer := Some (xs[unat Index := fst out, unat (Index + 1) := snd out])\<rparr>\<rparr>))
                         (Index + 2))"
    unfolding ProcessObjectForMVP_def s1_def[symmetric] Let_def ob_def[symmetric] buf1 b
    using chk by (simp split: result.splits)
  from unattached_outcome[of g "m_OwningScene ob" "m_Transform ob"]
  consider (ret) t out where "ComputeModelViewProjection g (Some (m_OwningScene ob)) (m_Transform ob) = Returns t out"
    | (ns) "ComputeModelViewProjection g (Some (m_OwningScene ob)) (m_Transform ob) = Undefined NullSceneDereference"
    | (nc) "ComputeModelViewProjection g (Some (m_OwningScene ob)) (m_Transform ob) = Undefined NullCameraDereference"
    by blast
  then show ?thesis
  proof cases
    case ret
    define s' where "s' = record_call (StoreMatrices p Index)
                           (s1\<lparr>Objects := (Objects s1)[p := ob\<lparr>m_Transform := t\<rparr>],
                               m_MVPMatrixBuffer := (m_MVPMatrixBuffer s1)
                                 \<lparr>m_Buffer := Some (xs[unat Index := fst out, unat (Index + 1) := snd out])\<rparr>\<rparr>)"
    let ?X = "(if m_New (Objects s ! p) then init_calls p else []) @ [StoreMatrices p Index]"
    have R: "ProcessObjectForMVP g p s Index = Returns s' (Index + 2)"
      unfolding P ret s'_def by simp
    have C: "calls s' = calls s @ ?X" by (simp add: s'_def record_call_def calls1)
    have S: "stored_at ?X = [Index]" by (simp add: init_calls_def)
    have N: "m_ObjectCount (m_MVPMatrixBuffer s') = m_ObjectCount (m_MVPMatrixBuffer s)"
      by (simp add: s'_def record_call_def buf1)
    have B: "\<exists>xs'. m_Buffer (m_MVPMatrixBuffer s') = Some xs' \<and> length xs' = length xs"
      by (simp add: s'_def record_call_def)
    show ?thesis using R C S N B by blast
  next
    case ns
    then show ?thesis unfolding P by simp
  next
    case nc
    then show ?thesis unfolding P by simp
  qed
qed

lemma ProcessBatch_outcome:
  assumes "ps = [] \<or> (\<exists>xs. m_Buffer (m_MVPMatrixBuffer s) = Some xs
            \<and> unat Index + 2 * length ps \<le> length xs \<and> length xs < 2 ^ 64)"
  shows "(\<exists>s' X. ProcessBatch g ps s Index = Returns s' (Index + 2 * of_nat (length ps))
          \<and> calls s' = calls s @ X
          \<and> stored_at X = map (\<lambda>k. Index + 2 * of_nat k) [0..<length ps]
          \<and> m_ObjectCount (m_MVPMatrixBuffer s') = m_ObjectCount (m_MVPMatrixBuffer s)
          \<and> map_option length (m_Buffer (m_MVPMatrixBuffer s')) = map_option length (m_Buffer (m_MVPMatrixBuffer s)))
       \<or> ProcessBatch g ps s Index = Undefined NullSceneDereference
       \<or> ProcessBatch g ps s Index = Undefined NullCameraDereference"
  using assms
proof (induction ps arbitrary: s Index)
  case Nil
  have "ProcessBatch g [] s Index = Returns s (Index + 2 * of_nat (length ([]::nat list)))
      \<and> calls s = calls s @ [] \<and> stored_at [] = map (\<lambda>k. Index + 2 * of_nat k) [0..<length ([]::nat list)]"
    by simp
  then show ?case by blast
next
  case (Cons p ps)
  from Cons.prems obtain xs where xs: "m_Buffer (m_MVPMatrixBuffer s) = Some xs"
    and room: "unat Index + 2 * length (p # ps) \<le> length xs" and lt: "length xs < 2 ^ 64"
    by auto
  have room1: "unat Index + 2 \<le> length xs" using room by simp
  have u2: "unat (Index + 2) = unat Index + 2" using room1 lt by (rule unat_Suc_small)
  from ProcessObject_outcome[OF xs room1 lt, of g p]
  consider (ret) s1 X1 xs1 where "ProcessObjectForMVP g p s Index = Returns s1 (Index + 2)"
      "calls s1 = calls s @ X1" "stored_at X1 = [Index]"
      "m_ObjectCount (m_MVPMatrixBuffer s1) = m_ObjectCount (m_MVPMatrixBuffer s)"
      "m_Buffer (m_MVPMatrixBuffer s1) = Some xs1" "length xs1 = length xs"
    | (ns) "ProcessObjectForMVP g p s Index = Undefined NullSceneDereference"
    | (nc) "ProcessObjectForMVP g p s Index = Undefined NullCameraDereference"
    by blast
  then show ?case
  proof cases
    case ret
    have h: "ps = [] \<or> (\<exists>xs. m_Buffer (m_MVPMatrixBuffer s1) = Some xs
            \<and> unat (Index + 2) + 2 * length ps \<le> length xs \<and> length xs < 2 ^ 64)"
      using ret(5,6) room lt u2 by simp
    from Cons.IH[OF h]
    consider (ret2) s' X where "ProcessBatch g ps s1 (Index + 2) = Returns s' (Index + 2 + 2 * of_nat (length ps))"
        "calls s' = calls s1 @ X"
        "stored_at X = map (\<lambda>k. Index + 2 + 2 * of_nat k) [0..<length ps]"
        "m_ObjectCount (m_MVPMatrixBuffer s') = m_ObjectCount (m_MVPMatrixBuffer s1)"
        "map_option length (m_Buffer (m_MVPMatrixBuffer s')) = map_option length (m_Buffer (m_MVPMatrixBuffer s1))"
      | (ns2) "ProcessBatch g ps s1 (Index + 2) = Undefined NullSceneDereference"
      | (nc2) "ProcessBatch g ps s1 (Index + 2) = Undefined NullCameraDereference"
      by blast
    then show ?thesis
    proof cases
      case ret2
      have 1: "ProcessBatch g (p # ps) s Index = Returns s' (Index + 2 * of_nat (length (p # ps)))"
        using ret(1) ret2(1) by (simp add: algebra_simps)
      have 2: "calls s' = calls s @ (X1 @ X)" using ret(2) ret2(2) by simp
      have "map (\<lambda>k. Index + 2 * of_nat k) [0..<length (p # ps)]
          = Index # map (\<lambda>k. Index + 2 + 2 * of_nat k) [0..<length ps]"
        by (simp add: upt_0_Suc comp_def algebra_simps del: upt_Suc)
      then have 3: "stored_at (X1 @ X) = map (\<lambda>k. Index + 2 * of_nat k) [0..<length (p # ps)]"
        using ret(3) ret2(3) by (simp add: stored_at_append)
      have 4: "m_ObjectCount (m_MVPMatrixBuffer s') = m_ObjectCount (m_MVPMatrixBuffer s)"
        using ret(4) ret2(4) by simp
      have 5: "map_option length (m_Buffer (m_MVPMatrixBuffer s')) = map_option length (m_Buffer (m_MVPMatrixBuffer s))"
        using ret(5,6) ret2(5) xs by simp
      show ?thesis using 1 2 3 4 5 by blast
    next
      case ns2
      then show ?thesis using ret(1) by simp
    next
      case nc2
      then show ?thesis using ret(1) by simp
    qed
  next
    case ns
    then show ?thesis by simp
  next
    case nc
    then show ?thesis by simp
  qed
qed

lemma unat_double_of_nat:
  assumes "k < 2 ^ 62"
  shows "unat (2 * of_nat k :: size_t) = 2 * k"
proof -
  have "unat (of_nat k :: size_t) = k" using assms by (simp add: unat_of_nat)
  then show ?thesis using assms by (simp add: unat_word_ariths)
qed

lemma Render_outcome:
  fixes s :: "('f::{zero,one}, 'm) Renderer"
  assumes len: "length (Objects s) < 2 ^ 62"
    and inv: "buffer_inv (m_MVPMatrixBuffer s)"
  shows "(\<exists>s' X. Render g z s = Returns s' ()
          \<and> calls s' = calls s @ X
          \<and> stored_at X = map (\<lambda>k. 2 * of_nat k) [0..<length (unflagged (Objects s))]
          \<and> of_nat (length (Objects s)) - (if snd (BatchSceneObjects (Objects s)) \<noteq> None then 1 else 0)
               \<le> m_ObjectCount (m_MVPMatrixBuffer s')
          \<and> buffer_inv (m_MVPMatrixBuffer s'))
       \<or> Render g z s = Undefined NullSceneDereference
       \<or> Render g z s = Undefined NullCameraDereference"
proof -
  let ?objs = "Objects s"
  let ?B = "fst (BatchSceneObjects ?objs)"
  let ?S = "snd (BatchSceneObjects ?objs)"
  define n :: size_t where "n = of_nat (length ?objs) - (if ?S \<noteq> None then 1 else 0)"
  let ?s0 = "record_call ClearFrameBuffer s"
  let ?s1 = "EnsureBufferCapacity z n ?s0"
  let ?ord = "batch_order ?B"
  have objs0: "Objects ?s0 = ?objs" and buf0: "m_MVPMatrixBuffer ?s0 = m_MVPMatrixBuffer s"
    and calls0: "calls ?s0 = calls s @ [ClearFrameBuffer]"
    by (simp_all add: record_call_def)
  have n: "unat n = length ?objs - (if flagged ?objs = [] then 0 else 1)"
    unfolding n_def using len by (rule total_count)
  then have n62: "unat n < 2 ^ 62" using len by simp
  have inv0: "buffer_inv (m_MVPMatrixBuffer ?s0)" using inv buf0 by simp
  note e = Ensure_buffer[OF inv0 n62, of z]
  have calls1: "calls ?s1 = calls s @ ClearFrameBuffer # ensure_calls z n (m_MVPMatrixBuffer s)"
    by (simp add: Ensure_calls calls0 buf0)
  have k: "length ?ord \<le> unat n" using order_room[of ?objs] n by simp
  have room: "?ord = [] \<or> (\<exists>xs. m_Buffer (m_MVPMatrixBuffer ?s1) = Some xs
            \<and> unat (0::size_t) + 2 * length ?ord \<le> length xs \<and> length xs < 2 ^ 64)"
  proof (cases "n = 0")
    case True
    then have "length ?ord = 0" using k by simp
    then show ?thesis by simp
  next
    case False
    then obtain xs where xs: "m_Buffer (m_MVPMatrixBuffer ?s1) = Some xs" using e(3) by auto
    then have "length xs = 2 * unat (m_ObjectCount (m_MVPMatrixBuffer ?s1))" "length xs < 2 ^ 64"
      using e(1) by (simp_all add: buffer_inv_def)
    moreover have "unat n \<le> unat (m_ObjectCount (m_MVPMatrixBuffer ?s1))"
      using e(2) by (simp add: word_le_nat_alt)
    ultimately show ?thesis using xs k by simp
  qed
  have U: "UpdateMVPInstances g z ?B (?S \<noteq> None) ?s0 =
      (case ProcessBatch g ?ord ?s1 0 of
           Returns s' Index \<Rightarrow> Returns (record_call UploadMVPDataToGPU s') ()
         | Throws s' e \<Rightarrow> Throws s' e
         | Undefined u \<Rightarrow> Undefined u)"
    unfolding UpdateMVPInstances_def Let_def objs0 n_def[symmetric] ProcessBatches_order by simp
  have Rd: "Render g z s =
      (case UpdateMVPInstances g z ?B (?S \<noteq> None) ?s0 of
           Returns s' u \<Rightarrow> Returns (RenderSkybox ?S (RenderBatches ?B s')) ()
         | Throws s' e \<Rightarrow> Throws s' e
         | Undefined u \<Rightarrow> Undefined u)"
    unfolding Render_def Let_def objs0 by simp
  from ProcessBatch_outcome[OF room, of g]
  consider (ret) s2 X where "ProcessBatch g ?ord ?s1 0 = Returns s2 (0 + 2 * of_nat (length ?ord))"
      "calls s2 = calls ?s1 @ X"
      "stored_at X = map (\<lambda>k. 0 + 2 * of_nat k) [0..<length ?ord]"
      "m_ObjectCount (m_MVPMatrixBuffer s2) = m_ObjectCount (m_MVPMatrixBuffer ?s1)"
      "map_option length (m_Buffer (m_MVPMatrixBuffer s2)) = map_option length (m_Buffer (m_MVPMatrixBuffer ?s1))"
    | (ns) "ProcessBatch g ?ord ?s1 0 = Undefined NullSceneDereference"
    | (nc) "ProcessBatch g ?ord ?s1 0 = Undefined NullCameraDereference"
    by blast
  then show ?thesis
  proof cases
    case ret
    let ?s3 = "RenderBatches ?B (record_call UploadMVPDataToGPU s2)"
    let ?s' = "RenderSkybox ?S ?s3"
    let ?X = "ClearFrameBuffer # ensure_calls z n (m_MVPMatrixBuffer s) @ X
              @ UploadMVPDataToGPU # draw_calls ?B @ skybox_calls (Objects ?s3) ?S"
    have R: "Render g z s = Returns ?s' ()" unfolding Rd U ret(1) by simp
    have calls3: "calls ?s3 = calls s2 @ UploadMVPDataToGPU # draw_calls ?B"
      and buf3: "m_MVPMatrixBuffer ?s3 = m_MVPMatrixBuffer s2"
      by (simp_all add: RenderBatches_eq record_call_def)
    have C: "calls ?s' = calls s @ ?X"
      unfolding RenderSkybox_calls calls3 ret(2) calls1 by simp
    have St: "stored_at ?X = map (\<lambda>k. 2 * of_nat k) [0..<length (unflagged ?objs)]"
      using ret(3)
      by (simp add: stored_at_append ensure_calls_none draw_calls_stored skybox_calls_none
          Batch_order_length)
    have bs: "m_MVPMatrixBuffer ?s' = m_MVPMatrixBuffer s2"
      by (simp add: RenderSkybox_buffer buf3)
    have I: "buffer_inv (m_MVPMatrixBuffer ?s')"
      using e(1) buffer_inv_cong[OF ret(4) ret(5)] bs by simp
    have N: "n \<le> m_ObjectCount (m_MVPMatrixBuffer ?s')"
      using e(2) ret(4) bs by simp
    show ?thesis using R C St I N unfolding n_def by blast
  next
    case ns
    then show ?thesis unfolding Rd U by simp
  next
    case nc
    then show ?thesis unfolding Rd U by simp
  qed
qed

text \<open>
  C9. In every frame (the scene below the size limit of a vector, the store in its state
  between frames) no matrix is written through a null buffer or out of range, whatever
  the objects are. When the frame returns, the write cursors are \<open>0, 2, 4, ...\<close>, two
  slots for each unflagged object; the number of unflagged objects is at most the capacity
  requested (the object count, minus one when a flagged object exists), which is at most the
  capacity of the store; every cursor \<open>i\<close> has \<open>i + 1\<close> below twice that capacity; and the
  store is in its state between frames again. The frame returns when every unflagged
  object is attached to a scene with a camera.
\<close>

theorem matrix_writes_in_bounds:
  fixes s :: "('f::{zero,one}, 'm) Renderer"
  assumes len: "length (Objects s) < 2 ^ 62"
    and inv: "buffer_inv (m_MVPMatrixBuffer s)"
  shows "Render g z s \<noteq> Undefined NullBufferWrite
     \<and> Render g z s \<noteq> Undefined OutOfBoundsWrite
     \<and> (\<forall>s'. Render g z s = Returns s' () \<longrightarrow>
           stored_at (calls_since (calls s) s')
             = map (\<lambda>k. 2 * of_nat k) [0..<length (unflagged (Objects s))]
         \<and> length (unflagged (Objects s))
             \<le> unat (of_nat (length (Objects s)) - (if flagged (Objects s) \<noteq> [] then 1 else 0) :: size_t)
         \<and> of_nat (length (Objects s)) - (if flagged (Objects s) \<noteq> [] then 1 else 0)
             \<le> m_ObjectCount (m_MVPMatrixBuffer s')
         \<and> (\<forall>i\<in>set (stored_at (calls_since (calls s) s')).
               unat i + 1 < 2 * unat (m_ObjectCount (m_MVPMatrixBuffer s')))
         \<and> buffer_inv (m_MVPMatrixBuffer s'))
     \<and> (attached (Objects s) \<longrightarrow> (\<exists>s'. Render g z s = Returns s' ()))"
proof -
  let ?objs = "Objects s"
  let ?n = "of_nat (length ?objs) - (if flagged ?objs \<noteq> [] then 1 else 0) :: size_t"
  have fl: "(snd (BatchSceneObjects ?objs) \<noteq> None) = (flagged ?objs \<noteq> [])"
    by (simp add: Batch_skybox)
  note out = Render_outcome[OF len inv, of g z, unfolded fl]
  have 1: "Render g z s \<noteq> Undefined NullBufferWrite" "Render g z s \<noteq> Undefined OutOfBoundsWrite"
    using out by auto
  have n: "unat ?n = length ?objs - (if flagged ?objs = [] then 0 else 1)"
    using total_count[OF len] unfolding fl by simp
  have k: "length (unflagged ?objs) \<le> unat ?n"
    using order_room[of ?objs] n by (simp add: Batch_order_length)
  have 2: "stored_at (calls_since (calls s) s')
             = map (\<lambda>k. 2 * of_nat k) [0..<length (unflagged ?objs)]
         \<and> length (unflagged ?objs) \<le> unat ?n
         \<and> ?n \<le> m_ObjectCount (m_MVPMatrixBuffer s')
         \<and> (\<forall>i\<in>set (stored_at (calls_since (calls s) s')).
               unat i + 1 < 2 * unat (m_ObjectCount (m_MVPMatrixBuffer s')))
         \<and> buffer_inv (m_MVPMatrixBuffer s')"
    if R: "Render g z s = Returns s' ()" for s'
  proof -
    from out R obtain X where C: "calls s' = calls s @ X"
      and St: "stored_at X = map (\<lambda>k. 2 * of_nat k) [0..<length (unflagged ?objs)]"
      and N: "?n \<le> m_ObjectCount (m_MVPMatrixBuffer s')"
      and I: "buffer_inv (m_MVPMatrixBuffer s')"
      by auto
    have a: "stored_at (calls_since (calls s) s') = map (\<lambda>k. 2 * of_nat k) [0..<length (unflagged ?objs)]"
      using St by (simp add: calls_since_def C)
    have cap: "unat ?n \<le> unat (m_ObjectCount (m_MVPMatrixBuffer s'))"
      using N by (simp add: word_le_nat_alt)
    have b: "\<forall>i\<in>set (stored_at (calls_since (calls s) s')).
               unat i + 1 < 2 * unat (m_ObjectCount (m_MVPMatrixBuffer s'))"
    proof
      fix i assume "i \<in> set (stored_at (calls_since (calls s) s'))"
      then obtain j where j: "j < length (unflagged ?objs)" and i: "i = 2 * of_nat j"
        unfolding a by auto
      have "j < 2 ^ 62" using j k n len by simp
      then have "unat i = 2 * j" unfolding i by (rule unat_double_of_nat)
      then show "unat i + 1 < 2 * unat (m_ObjectCount (m_MVPMatrixBuffer s'))"
        using j k cap by simp
    qed
    show ?thesis using a k N b I by blast
  qed
  have 3: "\<exists>s'. Render g z s = Returns s' ()" if "attached ?objs"
    using Render_frame[OF len inv that, of g z] by blast
  show ?thesis using 1 2 3 by blast
qed

theorem matrix_writes_in_bounds_witness:
  "length example_scene < 2 ^ 62 \<and> attached example_scene
   \<and> unflagged example_scene = [0, 2, 3] \<and> flagged example_scene = [1]
   \<and> (\<exists>s'. Render expr_glm Zero (Renderer_ctor example_scene) = Returns s' ()
        \<and> stored_at (calls s') = [0, 2, 4]
        \<and> 3 \<le> m_ObjectCount (m_MVPMatrixBuffer s')
        \<and> buffer_inv (m_MVPMatrixBuffer s'))
   \<and> (\<exists>s'. Render expr_glm Zero (Renderer_ctor ([] :: (int, mat4) SceneObject list)) = Returns s' ()
        \<and> stored_at (calls s') = [])"
proof -
  have o: "Objects (Renderer_ctor example_scene) = example_scene"
    "calls (Renderer_ctor example_scene) = []"
    by (simp_all add: Renderer_ctor_def)
  have u: "unflagged example_scene = [0, 2, 3]" and f: "flagged example_scene = [1]"
    and l: "length example_scene < 2 ^ 62" "length example_scene = 4"
    by (simp_all add: unflagged_def flagged_def example_scene_def plain_object_def
        skybox_object_def SceneObject_ctor_def SetScene_def upt_rec)
  have h: "length (Objects (Renderer_ctor example_scene)) < 2 ^ 62"
    "buffer_inv (m_MVPMatrixBuffer (Renderer_ctor example_scene))"
    unfolding o using l by (simp_all add: ctor_buffer_inv)
  note t = matrix_writes_in_bounds[OF h, of expr_glm Zero, unfolded o]
  from t example_attached obtain s' where R: "Render expr_glm Zero (Renderer_ctor example_scene) = Returns s' ()"
    by blast
  have c: "calls_since [] s' = calls s'" by (simp add: calls_since_def)
  from t R have "stored_at (calls_since [] s')
             = map (\<lambda>k. 2 * of_nat k) [0..<length (unflagged example_scene)]
         \<and> of_nat (length example_scene) - (if flagged example_scene \<noteq> [] then 1 else 0)
             \<le> m_ObjectCount (m_MVPMatrixBuffer s')
         \<and> buffer_inv (m_MVPMatrixBuffer s')"
    by blast
  then have a: "stored_at (calls s') = [0, 2, 4] \<and> 3 \<le> m_ObjectCount (m_MVPMatrixBuffer s')
      \<and> buffer_inv (m_MVPMatrixBuffer s')"
    unfolding c u f l(2) by (simp add: upt_rec)
  let ?e = "Renderer_ctor ([] :: (int, mat4) SceneObject list)"
  have oe: "Objects ?e = []" "calls ?e = []" by (simp_all add: Renderer_ctor_def)
  have he: "length (Objects ?e) < 2 ^ 62" "buffer_inv (m_MVPMatrixBuffer ?e)"
    unfolding oe by (simp_all add: ctor_buffer_inv)
  note te = matrix_writes_in_bounds[OF he, of expr_glm Zero, unfolded oe]
  have "attached ([] :: (int, mat4) SceneObject list)" by (simp add: attached_def)
  with te obtain se where Re: "Render expr_glm Zero ?e = Returns se ()" by blast
  from te Re have "stored_at (calls_since [] se)
             = map (\<lambda>k. 2 * of_nat k) [0..<length (unflagged ([] :: (int, mat4) SceneObject list))]"
    by blast
  then have b: "stored_at (calls se) = []" by (simp add: calls_since_def unflagged_def)
  show ?thesis using l(1) example_attached u f R a Re b by blast
qed

end
